theory Spec2Isabelle
  imports Main "HOL-Library.Multiset"
begin

section \<open>Data model\<close>

text \<open>
  A note as \<^verbatim>\<open>api.js\<close> and \<^verbatim>\<open>NotesLayout.js\<close> build it:
  \<^verbatim>\<open>{ id, title, content, updatedAt }\<close>. The field \<^verbatim>\<open>id\<close> is called \<open>note_id\<close>
  here (\<open>id\<close> is the identity function of HOL). \<open>updatedAt\<close> holds the instant that
  the ISO-8601 string denotes, in milliseconds since the epoch: the code only produces
  it with \<^verbatim>\<open>new Date().toISOString()\<close> and only reads it back with \<^verbatim>\<open>new Date(s)\<close>.
\<close>

record Note =
  note_id :: string
  title :: string
  content :: string
  updatedAt :: nat

text \<open>
  The payload of create and update, \<^verbatim>\<open>{title?, content?}\<close>: a field that is absent
  is \<open>None\<close>.
\<close>

record payload =
  ptitle :: "string option"
  pcontent :: "string option"

text \<open>A thrown JavaScript error: its \<^verbatim>\<open>name\<close> and its \<^verbatim>\<open>message\<close>.\<close>

record js_error =
  ename :: string
  message :: string

definition Error :: "string \<Rightarrow> js_error" where
  "Error msg = \<lparr>ename = ''Error'', message = msg\<rparr>"

text \<open>
  \<^verbatim>\<open>v || d\<close> on a string that may be undefined: the default is taken when the value is
  undefined or the empty string.
\<close>

definition or_else :: "string option \<Rightarrow> string \<Rightarrow> string" where
  "or_else v d = (case v of None \<Rightarrow> d | Some s \<Rightarrow> if s = [] then d else s)"

section \<open>The API client (\<^verbatim>\<open>api.js\<close>)\<close>

subsection \<open>Configuration\<close>

text \<open>
  The two environment variables read by \<^verbatim>\<open>getApiBase\<close> (unset is \<open>None\<close>), and the
  module constant \<^verbatim>\<open>enableFallback\<close>, computed once from the feature flag list.
\<close>

record config =
  REACT_APP_API_BASE :: "string option"
  REACT_APP_BACKEND_URL :: "string option"
  enableFallback :: bool

text \<open>\<^verbatim>\<open>base.replace(/\/+$/, '')\<close>: the trailing run of slashes is removed.\<close>

definition strip_trailing_slashes :: "string \<Rightarrow> string" where
  "strip_trailing_slashes s = rev (dropWhile (\<lambda>c. c = CHR ''/'') (rev s))"

definition getApiBase :: "config \<Rightarrow> string" where
  "getApiBase cfg =
     (let base = or_else (REACT_APP_API_BASE cfg) (or_else (REACT_APP_BACKEND_URL cfg) [])
      in if base = [] then [] else strip_trailing_slashes base)"

subsection \<open>Requests and responses\<close>

text \<open>
  What an operation does to the outside world, in order: an HTTP request (verb, base URL
  and the id of the note addressed, if any) and the simulated latency of the fallback
  (\<^verbatim>\<open>fakeDelay\<close>, 300 ms).
\<close>

datatype http_verb = GET | POST | PUT | DELETE

datatype io = Fetch http_verb string "string option" | FakeDelay nat

text \<open>
  The response of \<^verbatim>\<open>fetch\<close> as \<^verbatim>\<open>handleResponse\<close> reads it: \<^verbatim>\<open>res.ok\<close>,
  \<^verbatim>\<open>res.status\<close>, the body as \<^verbatim>\<open>res.text()\<close> gives it, \<^verbatim>\<open>res.statusText\<close>, and what
  \<^verbatim>\<open>res.json()\<close> gives (it throws on a body that does not parse).
\<close>

record 'a response =
  ok :: bool
  http_status :: nat
  body_text :: string
  statusText :: string
  json :: "js_error + 'a"

text \<open>\<^verbatim>\<open>null\<close> (a 204 response) is \<open>None\<close>.\<close>

definition handleResponse :: "'a response \<Rightarrow> js_error + 'a option" where
  "handleResponse res =
     (if \<not> ok res then
        Inl (Error (or_else (Some (body_text res)) (or_else (Some (statusText res)) ''Request failed'')))
      else if http_status res = 204 then Inr None
      else (case json res of Inl e \<Rightarrow> Inl e | Inr v \<Rightarrow> Inr (Some v)))"

text \<open>
  The part every operation starts with:
  \<^verbatim>\<open>
  const base = getApiBase();
  if (base) {
    try { const res = await fetch(...); return await handleResponse(res); }
    catch (e) { if (!enableFallback) throw e; }
  }
  \<close>
  \<open>fetched\<close> is what \<^verbatim>\<open>fetch\<close> does when it is called: it throws (\<open>Inl\<close>, the network
  failure) or gives a response. The result is \<open>Some\<close> when the operation ends here (it
  returns or throws), and \<open>None\<close> when control reaches the code after the block.
\<close>

definition remote :: "config \<Rightarrow> (js_error + 'a response) \<Rightarrow> (js_error + 'a option) option" where
  "remote cfg fetched =
     (if getApiBase cfg = [] then None
      else (case (case fetched of Inl e \<Rightarrow> Inl e | Inr res \<Rightarrow> handleResponse res) of
              Inr v \<Rightarrow> Some (Inr v)
            | Inl e \<Rightarrow> if \<not> enableFallback cfg then Some (Inl e) else None))"

definition requested :: "config \<Rightarrow> http_verb \<Rightarrow> string option \<Rightarrow> io list" where
  "requested cfg verb target =
     (if getApiBase cfg = [] then [] else [Fetch verb (getApiBase cfg) target])"

definition unavailable :: js_error where
  "unavailable = Error ''Backend unavailable and fallback disabled.''"

definition not_found :: js_error where
  "not_found = Error ''Note not found''"

text \<open>
  What an operation leaves behind: what it returned or threw, the fallback dataset
  (\<^verbatim>\<open>fallbackNotes\<close>, module state) after it, and what it did to the outside world.
\<close>

record 'a outcome =
  result :: "js_error + 'a"
  store :: "Note list"
  trace :: "io list"

subsection \<open>Sorting as \<^verbatim>\<open>Array.prototype.sort\<close> does\<close>

text \<open>
  \<^verbatim>\<open>sort(cmp)\<close> is stable: an element goes before the first one that \<open>cmp\<close> does not put
  before it. The comparator of \<^verbatim>\<open>listNotes\<close> is
  \<^verbatim>\<open>(a, b) => new Date(b.updatedAt) - new Date(a.updatedAt)\<close>.
\<close>

primrec place :: "('a \<Rightarrow> 'a \<Rightarrow> int) \<Rightarrow> 'a \<Rightarrow> 'a list \<Rightarrow> 'a list" where
  "place cmp x [] = [x]"
| "place cmp x (y # ys) = (if cmp x y \<le> 0 then x # y # ys else y # place cmp x ys)"

primrec js_sort :: "('a \<Rightarrow> 'a \<Rightarrow> int) \<Rightarrow> 'a list \<Rightarrow> 'a list" where
  "js_sort cmp [] = []"
| "js_sort cmp (x # xs) = place cmp x (js_sort cmp xs)"

definition newest_first :: "Note \<Rightarrow> Note \<Rightarrow> int" where
  "newest_first a b = int (updatedAt b) - int (updatedAt a)"

subsection \<open>The five operations\<close>

text \<open>
  Each operation takes the configuration, what \<^verbatim>\<open>fetch\<close> does if it is called, and the
  fallback dataset. \<^verbatim>\<open>createNote\<close> and \<^verbatim>\<open>updateNote\<close> also take the clock reading of
  \<^verbatim>\<open>new Date()\<close>, and \<^verbatim>\<open>createNote\<close> the string that
  \<^verbatim>\<open>Math.random().toString(36).slice(2, 10)\<close> gives.
\<close>

definition listNotes ::
  "config \<Rightarrow> (js_error + (Note list) response) \<Rightarrow> Note list \<Rightarrow> (Note list option) outcome" where
  "listNotes cfg fetched fallbackNotes =
     (case remote cfg fetched of
        Some r \<Rightarrow> \<lparr>result = r, store = fallbackNotes, trace = requested cfg GET None\<rparr>
      | None \<Rightarrow>
          if \<not> enableFallback cfg then
            \<lparr>result = Inl unavailable, store = fallbackNotes, trace = requested cfg GET None\<rparr>
          else
            \<lparr>result = Inr (Some (js_sort newest_first fallbackNotes)), store = fallbackNotes,
             trace = requested cfg GET None @ [FakeDelay 300]\<rparr>)"

definition getNote ::
  "config \<Rightarrow> (js_error + Note response) \<Rightarrow> Note list \<Rightarrow> string \<Rightarrow> (Note option) outcome" where
  "getNote cfg fetched fallbackNotes i =
     (case remote cfg fetched of
        Some r \<Rightarrow> \<lparr>result = r, store = fallbackNotes, trace = requested cfg GET (Some i)\<rparr>
      | None \<Rightarrow>
          if \<not> enableFallback cfg then
            \<lparr>result = Inl unavailable, store = fallbackNotes, trace = requested cfg GET (Some i)\<rparr>
          else
            \<lparr>result = (case find (\<lambda>n. note_id n = i) fallbackNotes of
                         None \<Rightarrow> Inl not_found
                       | Some found \<Rightarrow> Inr (Some found)),
             store = fallbackNotes,
             trace = requested cfg GET (Some i) @ [FakeDelay 300]\<rparr>)"

definition createNote ::
  "config \<Rightarrow> (js_error + Note response) \<Rightarrow> string \<Rightarrow> nat \<Rightarrow> Note list \<Rightarrow> payload
     \<Rightarrow> (Note option) outcome" where
  "createNote cfg fetched random_id now fallbackNotes p =
     (case remote cfg fetched of
        Some r \<Rightarrow> \<lparr>result = r, store = fallbackNotes, trace = requested cfg POST None\<rparr>
      | None \<Rightarrow>
          if \<not> enableFallback cfg then
            \<lparr>result = Inl unavailable, store = fallbackNotes, trace = requested cfg POST None\<rparr>
          else
            (let newNote = \<lparr>note_id = random_id, title = or_else (ptitle p) ''Untitled'',
                            content = or_else (pcontent p) [], updatedAt = now\<rparr>
             in \<lparr>result = Inr (Some newNote), store = newNote # fallbackNotes,
                 trace = requested cfg POST None @ [FakeDelay 300]\<rparr>))"

text \<open>\<^verbatim>\<open>findIndex\<close>: the first index whose element satisfies the test; \<open>None\<close> is -1.\<close>

primrec findIndex :: "('a \<Rightarrow> bool) \<Rightarrow> 'a list \<Rightarrow> nat option" where
  "findIndex P [] = None"
| "findIndex P (x # xs) =
     (if P x then Some 0 else (case findIndex P xs of None \<Rightarrow> None | Some k \<Rightarrow> Some (Suc k)))"

text \<open>\<^verbatim>\<open>{ ...n, ...payload, updatedAt: now }\<close>: the fields the payload has replace the note's.\<close>

definition merged :: "Note \<Rightarrow> payload \<Rightarrow> nat \<Rightarrow> Note" where
  "merged n p now =
     n\<lparr>title := (case ptitle p of None \<Rightarrow> title n | Some t \<Rightarrow> t),
       content := (case pcontent p of None \<Rightarrow> content n | Some c \<Rightarrow> c),
       updatedAt := now\<rparr>"

definition updateNote ::
  "config \<Rightarrow> (js_error + Note response) \<Rightarrow> nat \<Rightarrow> Note list \<Rightarrow> string \<Rightarrow> payload
     \<Rightarrow> (Note option) outcome" where
  "updateNote cfg fetched now fallbackNotes i p =
     (case remote cfg fetched of
        Some r \<Rightarrow> \<lparr>result = r, store = fallbackNotes, trace = requested cfg PUT (Some i)\<rparr>
      | None \<Rightarrow>
          if \<not> enableFallback cfg then
            \<lparr>result = Inl unavailable, store = fallbackNotes, trace = requested cfg PUT (Some i)\<rparr>
          else
            (case findIndex (\<lambda>n. note_id n = i) fallbackNotes of
               None \<Rightarrow>
                 \<lparr>result = Inl not_found, store = fallbackNotes,
                  trace = requested cfg PUT (Some i) @ [FakeDelay 300]\<rparr>
             | Some idx \<Rightarrow>
                 (let updated = merged (fallbackNotes ! idx) p now
                  in \<lparr>result = Inr (Some updated), store = fallbackNotes[idx := updated],
                      trace = requested cfg PUT (Some i) @ [FakeDelay 300]\<rparr>)))"

text \<open>
  \<^verbatim>\<open>deleteNote\<close> awaits \<^verbatim>\<open>handleResponse\<close> and returns \<^verbatim>\<open>true\<close> whatever the body was;
  its fallback filters the dataset and returns \<^verbatim>\<open>true\<close>.
\<close>

definition deleteNote ::
  "config \<Rightarrow> (js_error + 'a response) \<Rightarrow> Note list \<Rightarrow> string \<Rightarrow> bool outcome" where
  "deleteNote cfg fetched fallbackNotes i =
     (case remote cfg fetched of
        Some r \<Rightarrow>
          \<lparr>result = (case r of Inl e \<Rightarrow> Inl e | Inr v \<Rightarrow> Inr True), store = fallbackNotes,
           trace = requested cfg DELETE (Some i)\<rparr>
      | None \<Rightarrow>
          if \<not> enableFallback cfg then
            \<lparr>result = Inl unavailable, store = fallbackNotes,
             trace = requested cfg DELETE (Some i)\<rparr>
          else
            \<lparr>result = Inr True, store = filter (\<lambda>n. note_id n \<noteq> i) fallbackNotes,
             trace = requested cfg DELETE (Some i) @ [FakeDelay 300]\<rparr>)"

text \<open>
  ``No backend reachable'': no base URL is configured, or the request failed (the network
  failed, or the response was not a 2xx one, or its body did not parse).
\<close>

definition unreachable :: "config \<Rightarrow> (js_error + 'a response) \<Rightarrow> bool" where
  "unreachable cfg fetched =
     (getApiBase cfg = [] \<or>
      (case fetched of Inl e \<Rightarrow> True
       | Inr res \<Rightarrow> (case handleResponse res of Inl e \<Rightarrow> True | Inr v \<Rightarrow> False)))"

section \<open>The view state and the handlers (\<^verbatim>\<open>NotesLayout.js\<close>)\<close>

subsection \<open>State\<close>

datatype load_status = Idle | Loading | Failed | Success

datatype ui_mode = Empty | Viewing | Editing | Creating

text \<open>The calls the component makes to the API client.\<close>

datatype api_call =
  CallList | CallCreate payload | CallUpdate string payload | CallDelete string

text \<open>
  The state of \<^verbatim>\<open>useNotes\<close> (\<open>notes\<close>, \<open>status\<close>, \<open>error\<close>; the status \<^verbatim>\<open>'error'\<close> is
  \<open>Failed\<close>) and of \<^verbatim>\<open>NotesLayout\<close> (\<open>activeId\<close>, \<open>mode\<close>, \<open>saving\<close>), with what the
  component has done to the outside world so far: the messages shown by \<^verbatim>\<open>alert\<close> and the
  calls made to the API client, oldest first. \<^verbatim>\<open>null\<close> is \<open>None\<close>.
\<close>

record ui =
  "notes" :: "Note list"
  status :: load_status
  error :: string
  activeId :: "string option"
  mode :: ui_mode
  saving :: bool
  alerts :: "string list"
  calls :: "api_call list"

definition initial :: ui where
  "initial = \<lparr>notes = [], status = Idle, error = [], activeId = None, mode = Empty,
              saving = False, alerts = [], calls = []\<rparr>"

text \<open>\<^verbatim>\<open>!activeId\<close>: \<^verbatim>\<open>null\<close> and the empty string are falsy.\<close>

definition falsy :: "string option \<Rightarrow> bool" where
  "falsy a = (case a of None \<Rightarrow> True | Some i \<Rightarrow> i = [])"

text \<open>\<^verbatim>\<open>notes.find(n => n.id === activeId)\<close>; no id is \<^verbatim>\<open>=== null\<close>.\<close>

definition activeNote :: "ui \<Rightarrow> Note option" where
  "activeNote s =
     (case activeId s of None \<Rightarrow> None | Some a \<Rightarrow> find (\<lambda>n. note_id n = a) (notes s))"

subsection \<open>\<^verbatim>\<open>refresh\<close>\<close>

text \<open>
  \<^verbatim>\<open>refresh\<close> up to its \<^verbatim>\<open>await listNotes()\<close>, and from there on, given what
  \<^verbatim>\<open>listNotes\<close> returned or threw.
\<close>

definition refresh_begin :: "ui \<Rightarrow> ui" where
  "refresh_begin s = s\<lparr>status := Loading, error := [], calls := calls s @ [CallList]\<rparr>"

definition refresh_end :: "js_error + Note list option \<Rightarrow> ui \<Rightarrow> ui" where
  "refresh_end r s =
     (case r of
        Inr data \<Rightarrow> s\<lparr>notes := (case data of None \<Rightarrow> [] | Some d \<Rightarrow> d), status := Success\<rparr>
      | Inl e \<Rightarrow> s\<lparr>status := Failed, error := or_else (Some (message e)) ''Failed to load notes''\<rparr>)"

definition refresh :: "js_error + Note list option \<Rightarrow> ui \<Rightarrow> ui" where
  "refresh r s = refresh_end r (refresh_begin s)"

subsection \<open>The reactive rule\<close>

text \<open>
  The body of the effect of \<^verbatim>\<open>NotesLayout\<close> whose dependencies are
  \<^verbatim>\<open>[notes, activeId]\<close>.
\<close>

definition selection_effect :: "ui \<Rightarrow> ui" where
  "selection_effect s =
     (if length (notes s) > 0 \<and> falsy (activeId s) then
        s\<lparr>activeId := Some (note_id (hd (notes s))), mode := Viewing\<rparr>
      else if length (notes s) = 0 then s\<lparr>activeId := None, mode := Empty\<rparr>
      else s)"

subsection \<open>Handlers\<close>

definition onSelect :: "string \<Rightarrow> ui \<Rightarrow> ui" where
  "onSelect i s = s\<lparr>activeId := Some i, mode := Viewing\<rparr>"

definition onCreate :: "ui \<Rightarrow> ui" where
  "onCreate s = s\<lparr>mode := Creating, activeId := None\<rparr>"

definition startEdit :: "ui \<Rightarrow> ui" where
  "startEdit s = s\<lparr>mode := Editing\<rparr>"

definition cancelEdit :: "ui \<Rightarrow> ui" where
  "cancelEdit s = (if length (notes s) = 0 then s\<lparr>mode := Empty\<rparr> else s\<lparr>mode := Viewing\<rparr>)"

text \<open>The decimal digits of a number, as a template literal writes \<^verbatim>\<open>Date.now()\<close>.\<close>

fun decimal :: "nat \<Rightarrow> string" where
  "decimal n =
     (if n < 10 then [''0123456789'' ! n]
      else decimal (n div 10) @ [''0123456789'' ! (n mod 10)])"

declare decimal.simps [simp del]

definition temp_id :: "nat \<Rightarrow> string" where
  "temp_id tick = ''temp_'' @ decimal tick"

text \<open>\<^verbatim>\<open>${e?.message || e}\<close>: an error with an empty message is written as its name.\<close>

definition shown :: "js_error \<Rightarrow> string" where
  "shown e = or_else (Some (message e)) (ename e)"

text \<open>
  \<^verbatim>\<open>handleSave(payload)\<close> up to its first \<^verbatim>\<open>await\<close>. \<open>tick\<close> is \<^verbatim>\<open>Date.now()\<close> and \<open>now\<close>
  the reading of \<^verbatim>\<open>new Date()\<close>. In neither mode the handler ends at once, and
  \<^verbatim>\<open>finally\<close> resets \<open>saving\<close>.
\<close>

definition handleSave_begin :: "payload \<Rightarrow> nat \<Rightarrow> nat \<Rightarrow> ui \<Rightarrow> ui" where
  "handleSave_begin p tick now s =
     (if mode s = Creating then
        (let tempId = temp_id tick;
             optimistic = \<lparr>note_id = tempId, title = or_else (ptitle p) ''Untitled'',
                           content = or_else (pcontent p) [], updatedAt = now\<rparr>
         in s\<lparr>saving := True, notes := optimistic # notes s, activeId := Some tempId,
              mode := Viewing, calls := calls s @ [CallCreate p]\<rparr>)
      else (case (if mode s = Editing then activeNote s else None) of
              Some a \<Rightarrow>
                (let updated = merged a p now
                 in s\<lparr>saving := True,
                      notes := map (\<lambda>n. if note_id n = note_id a then updated else n) (notes s),
                      calls := calls s @ [CallUpdate (note_id a) p]\<rparr>)
            | None \<Rightarrow> s\<lparr>saving := False\<rparr>))"

text \<open>After \<^verbatim>\<open>await createNote(payload)\<close> returned \<open>created\<close>.\<close>

definition handleSave_created :: "string \<Rightarrow> Note \<Rightarrow> ui \<Rightarrow> ui" where
  "handleSave_created tempId created s =
     s\<lparr>notes := created # filter (\<lambda>n. note_id n \<noteq> tempId) (notes s),
       activeId := Some (note_id created), mode := Viewing, saving := False\<rparr>"

text \<open>After \<^verbatim>\<open>await updateNote(...)\<close> returned: \<^verbatim>\<open>refresh()\<close> is called and awaited.\<close>

definition handleSave_updated :: "ui \<Rightarrow> ui" where
  "handleSave_updated s = refresh_begin s"

text \<open>After that \<^verbatim>\<open>refresh()\<close> ended (it never throws).\<close>

definition handleSave_refreshed :: "js_error + Note list option \<Rightarrow> ui \<Rightarrow> ui" where
  "handleSave_refreshed r s = (refresh_end r s)\<lparr>mode := Viewing, saving := False\<rparr>"

text \<open>After \<^verbatim>\<open>createNote\<close> or \<^verbatim>\<open>updateNote\<close> threw \<open>e\<close>: the \<^verbatim>\<open>catch\<close> and \<^verbatim>\<open>finally\<close> blocks.\<close>

definition handleSave_failed :: "js_error \<Rightarrow> ui \<Rightarrow> ui" where
  "handleSave_failed e s =
     s\<lparr>alerts := alerts s @ [''Error saving note: '' @ shown e], saving := False\<rparr>"

text \<open>
  \<^verbatim>\<open>handleDelete()\<close> up to its \<^verbatim>\<open>await\<close>; \<open>confirmed\<close> is what \<^verbatim>\<open>window.confirm\<close>
  returned.
\<close>

definition handleDelete_begin :: "bool \<Rightarrow> ui \<Rightarrow> ui" where
  "handleDelete_begin confirmed s =
     (case activeNote s of
        None \<Rightarrow> s
      | Some a \<Rightarrow>
          if \<not> confirmed then s
          else s\<lparr>notes := filter (\<lambda>n. note_id n \<noteq> note_id a) (notes s), activeId := None,
                 mode := Empty, calls := calls s @ [CallDelete (note_id a)]\<rparr>)"

text \<open>
  After \<^verbatim>\<open>await deleteNote(idToDelete)\<close> returned. \<open>snapshot\<close> is the \<^verbatim>\<open>notes\<close> of the
  render the handler was called in.
\<close>

definition handleDelete_deleted :: "string \<Rightarrow> Note list \<Rightarrow> ui \<Rightarrow> ui" where
  "handleDelete_deleted idToDelete snapshot s =
     (if length snapshot > 1 then
        (case find (\<lambda>n. note_id n \<noteq> idToDelete) snapshot of
           Some nxt \<Rightarrow> s\<lparr>activeId := Some (note_id nxt), mode := Viewing\<rparr>
         | None \<Rightarrow> s)
      else s)"

text \<open>After \<^verbatim>\<open>deleteNote\<close> threw \<open>e\<close>; the \<^verbatim>\<open>refresh()\<close> it starts is not awaited.\<close>

definition handleDelete_failed :: "js_error \<Rightarrow> ui \<Rightarrow> ui" where
  "handleDelete_failed e s =
     refresh_begin (s\<lparr>alerts := alerts s @ [''Error deleting note: '' @ shown e]\<rparr>)"

subsection \<open>The state machine\<close>

text \<open>
  One step is one run of handler code between two renders: a handler up to its first
  \<^verbatim>\<open>await\<close>, or the code after an \<^verbatim>\<open>await\<close> once the call has returned or thrown. The
  code after an \<^verbatim>\<open>await\<close> carries the constants of its closure (\<open>tempId\<close>;
  \<open>idToDelete\<close> and the \<open>notes\<close> of the render). \<open>Mounted\<close> is the \<^verbatim>\<open>refresh()\<close> of
  the mount effect, and \<open>Listed\<close> the end of a \<^verbatim>\<open>refresh()\<close> that no handler awaits.
\<close>

datatype event =
    Mounted
  | Listed "js_error + Note list option"
  | Select string
  | Create
  | Edit
  | Cancel
  | Save payload nat nat
  | Created string Note
  | Updated
  | Refreshed "js_error + Note list option"
  | SaveFailed js_error
  | Delete bool
  | Deleted string "Note list"
  | DeleteFailed js_error

fun handler :: "event \<Rightarrow> ui \<Rightarrow> ui" where
  "handler Mounted s = refresh_begin s"
| "handler (Listed r) s = refresh_end r s"
| "handler (Select i) s = onSelect i s"
| "handler Create s = onCreate s"
| "handler Edit s = startEdit s"
| "handler Cancel s = cancelEdit s"
| "handler (Save p tick now) s = handleSave_begin p tick now s"
| "handler (Created tempId created) s = handleSave_created tempId created s"
| "handler Updated s = handleSave_updated s"
| "handler (Refreshed r) s = handleSave_refreshed r s"
| "handler (SaveFailed e) s = handleSave_failed e s"
| "handler (Delete confirmed) s = handleDelete_begin confirmed s"
| "handler (Deleted idToDelete snapshot) s = handleDelete_deleted idToDelete snapshot s"
| "handler (DeleteFailed e) s = handleDelete_failed e s"

text \<open>
  Whether the step calls \<^verbatim>\<open>setNotes\<close>. Every call passes a new array, so the
  dependency \<^verbatim>\<open>notes\<close> of the effect changes.
\<close>

fun sets_notes :: "event \<Rightarrow> ui \<Rightarrow> bool" where
  "sets_notes (Listed r) s = (case r of Inr data \<Rightarrow> True | Inl e \<Rightarrow> False)"
| "sets_notes (Refreshed r) s = (case r of Inr data \<Rightarrow> True | Inl e \<Rightarrow> False)"
| "sets_notes (Save p tick now) s = (mode s = Creating \<or> (mode s = Editing \<and> activeNote s \<noteq> None))"
| "sets_notes (Created tempId created) s = True"
| "sets_notes (Delete confirmed) s = (activeNote s \<noteq> None \<and> confirmed)"
| "sets_notes e s = False"

text \<open>
  The state updates of a step are applied together and the component renders once; the
  effect then runs if one of its dependencies changed. (Its own update of \<open>activeId\<close>
  makes it run once more, which changes nothing: see \<open>selection_effect_idem\<close>.)
\<close>

definition step :: "event \<Rightarrow> ui \<Rightarrow> ui" where
  "step e s =
     (let s' = handler e s
      in if sets_notes e s \<or> activeId s' \<noteq> activeId s then selection_effect s' else s')"

primrec run :: "event list \<Rightarrow> ui \<Rightarrow> ui" where
  "run [] s = s"
| "run (e # es) s = run es (step e s)"

section \<open>Whole handler invocations\<close>

text \<open>
  What the API client answers to the calls of one handler invocation: what
  \<^verbatim>\<open>createNote\<close>, \<^verbatim>\<open>updateNote\<close>, \<^verbatim>\<open>deleteNote\<close> and \<^verbatim>\<open>listNotes\<close> return or throw
  if the invocation calls them.
\<close>

record answers =
  create_answer :: "js_error + Note"
  update_answer :: "js_error + Note option"
  delete_answer :: "js_error + bool"
  list_answer :: "js_error + Note list option"

text \<open>
  What starts handler code: the mount of the component and the user's actions (a note
  selected, the buttons for create, edit, cancel, save and delete; for delete with the
  answer to \<^verbatim>\<open>window.confirm\<close>).
\<close>

datatype action =
    DoMount
  | DoSelect string
  | DoCreate
  | DoEdit
  | DoCancel
  | DoSave payload nat nat
  | DoDelete bool

text \<open>
  The steps of one invocation that runs to its end before anything else happens: the
  handler up to its \<^verbatim>\<open>await\<close>, then the code after each \<^verbatim>\<open>await\<close> with the answer of
  the call and the constants of the closure (the temporary id; the id to delete and the
  \<open>notes\<close> of the render). The \<^verbatim>\<open>refresh()\<close> that a failed delete starts ends within the
  invocation too.
\<close>

definition invocation :: "action \<Rightarrow> answers \<Rightarrow> ui \<Rightarrow> event list" where
  "invocation a ans s =
     (case a of
        DoMount \<Rightarrow> [Mounted, Listed (list_answer ans)]
      | DoSelect i \<Rightarrow> [Select i]
      | DoCreate \<Rightarrow> [Create]
      | DoEdit \<Rightarrow> [Edit]
      | DoCancel \<Rightarrow> [Cancel]
      | DoSave p tick now \<Rightarrow>
          if mode s = Creating then
            [Save p tick now,
             (case create_answer ans of
                Inr created \<Rightarrow> Created (temp_id tick) created
              | Inl e \<Rightarrow> SaveFailed e)]
          else if mode s = Editing \<and> activeNote s \<noteq> None then
            (case update_answer ans of
               Inr updated \<Rightarrow> [Save p tick now, Updated, Refreshed (list_answer ans)]
             | Inl e \<Rightarrow> [Save p tick now, SaveFailed e])
          else [Save p tick now]
      | DoDelete confirmed \<Rightarrow>
          (case activeNote s of
             None \<Rightarrow> [Delete confirmed]
           | Some a \<Rightarrow>
               if \<not> confirmed then [Delete confirmed]
               else (case delete_answer ans of
                       Inr deleted \<Rightarrow> [Delete True, Deleted (note_id a) (notes s)]
                     | Inl e \<Rightarrow> [Delete True, DeleteFailed e, Listed (list_answer ans)])))"

text \<open>Invocations one after the other, none started before the one before has ended.\<close>

fun session :: "(action \<times> answers) list \<Rightarrow> ui \<Rightarrow> ui" where
  "session [] s = s"
| "session ((a, ans) # rest) s = session rest (run (invocation a ans s) s)"

text \<open>A listing whose notes have ids that differ from one another.\<close>

definition duplicate_free :: "js_error + Note list option \<Rightarrow> bool" where
  "duplicate_free r = (case r of Inr (Some listed) \<Rightarrow> distinct (map note_id listed) | _ \<Rightarrow> True)"

section \<open>Notions used in the proofs\<close>

text \<open>
  What a step needs for the ids of the collection to stay distinct: the temporary id of
  an optimistic note is not the id of a note of the collection; the note a create call
  returned has an id that no note of the collection has, the optimistic one apart; a
  listing is duplicate-free.
\<close>

fun admissible :: "ui \<Rightarrow> event \<Rightarrow> bool" where
  "admissible s (Save p tick now) =
     (mode s = Creating \<longrightarrow> temp_id tick \<notin> note_id ` set (notes s))"
| "admissible s (Created tempId created) =
     (note_id created \<notin> note_id ` set (filter (\<lambda>n. note_id n \<noteq> tempId) (notes s)))"
| "admissible s (Listed r) = duplicate_free r"
| "admissible s (Refreshed r) = duplicate_free r"
| "admissible s e = True"

fun admissible_run :: "ui \<Rightarrow> event list \<Rightarrow> bool" where
  "admissible_run s [] = True"
| "admissible_run s (e # es) = (admissible s e \<and> admissible_run (step e s) es)"

text \<open>
  What holds of the state between any two steps: a note is active exactly when the
  collection is non-empty, and in mode \<open>Creating\<close> the collection is empty.
\<close>

definition coherent :: "ui \<Rightarrow> bool" where
  "coherent s = ((notes s = [] \<longleftrightarrow> activeId s = None) \<and> (mode s = Creating \<longrightarrow> notes s = []))"

section \<open>Example data\<close>

text \<open>
  The demo note the fallback dataset is seeded with (its timestamp is the time the module
  was loaded; 100 here), and a configuration with no base URL and the fallback enabled.
\<close>

definition seed :: Note where
  "seed = \<lparr>note_id = ''1'', title = ''Welcome to Notes'',
            content = ''This is a demo note from the fallback store.'', updatedAt = 100\<rparr>"

definition offline :: config where
  "offline = \<lparr>REACT_APP_API_BASE = None, REACT_APP_BACKEND_URL = None, enableFallback = True\<rparr>"

text \<open>
  A configuration with a base URL and the fallback enabled, and a \<^verbatim>\<open>fetch\<close> that fails
  (the backend is down).
\<close>

definition configured :: config where
  "configured = \<lparr>REACT_APP_API_BASE = Some ''http://localhost:3001/'',
                  REACT_APP_BACKEND_URL = None, enableFallback = True\<rparr>"

definition down :: "js_error + 'a response" where
  "down = Inl \<lparr>ename = ''TypeError'', message = ''Failed to fetch''\<rparr>"

text \<open>A payload as the editor sends it, and the note a server could answer the create with.\<close>

definition draft :: payload where
  "draft = \<lparr>ptitle = Some ''T1'', pcontent = Some []\<rparr>"

definition server_note :: Note where
  "server_note = \<lparr>note_id = ''7'', title = ''T1'', content = [], updatedAt = 201\<rparr>"

text \<open>The component after it has mounted and loaded the seeded note.\<close>

definition loaded :: ui where
  "loaded = run [Mounted, Listed (Inr (Some [seed]))] initial"

text \<open>
  Answers of a backend that holds the seeded note: a create answered with
  \<open>server_note\<close>, an update and a delete that succeed, and the listing of the seeded
  note.
\<close>

definition replies :: answers where
  "replies = \<lparr>create_answer = Inr server_note, update_answer = Inr (Some seed),
              delete_answer = Inr True, list_answer = Inr (Some [seed])\<rparr>"

section \<open>Facts about the model\<close>

lemma selection_effect_idem: "selection_effect (selection_effect s) = selection_effect s"
  by (simp add: selection_effect_def falsy_def)

subsection \<open>The API client\<close>

lemma remote_none:
  "enableFallback cfg \<Longrightarrow> unreachable cfg fetched \<Longrightarrow> remote cfg fetched = None"
  by (auto simp: remote_def unreachable_def split: sum.splits)

lemma remote_no_base: "getApiBase cfg = [] \<Longrightarrow> remote cfg fetched = None"
  by (simp add: remote_def)

lemma requested_no_base: "getApiBase cfg = [] \<Longrightarrow> requested cfg verb target = []"
  by (simp add: requested_def)

lemma find_absent: "i \<notin> note_id ` set xs \<Longrightarrow> find (\<lambda>n. note_id n = i) xs = None"
  by (induction xs) auto

lemma findIndex_absent: "i \<notin> note_id ` set xs \<Longrightarrow> findIndex (\<lambda>n. note_id n = i) xs = None"
  by (induction xs) auto

lemma findIndex_Some:
  "findIndex P xs = Some k \<Longrightarrow> k < length xs \<and> P (xs ! k) \<and> (\<forall>j<k. \<not> P (xs ! j))"
proof (induction xs arbitrary: k)
  case Nil
  then show ?case by simp
next
  case (Cons x xs)
  show ?case
  proof (cases "P x")
    case True
    with Cons.prems show ?thesis by simp
  next
    case False
    with Cons.prems obtain k' where k': "findIndex P xs = Some k'" "k = Suc k'"
      by (auto split: option.splits)
    from Cons.IH [OF k'(1)] False k'(2) show ?thesis
      by (auto simp: less_Suc_eq_0_disj)
  qed
qed

lemma findIndex_present: "\<exists>x\<in>set xs. P x \<Longrightarrow> \<exists>k. findIndex P xs = Some k"
  by (induction xs) fastforce+

lemma offline_facts: "enableFallback offline" "getApiBase offline = []" "unreachable offline fetched"
  by (simp_all add: offline_def getApiBase_def or_else_def unreachable_def)

lemma configured_facts:
  "enableFallback configured" "getApiBase configured = ''http://localhost:3001''"
  "unreachable configured down"
  by (simp_all add: configured_def down_def getApiBase_def or_else_def unreachable_def
      strip_trailing_slashes_def)

subsection \<open>C9: no base URL and no fallback\<close>

text \<open>
  Claim C9. When \<^verbatim>\<open>getApiBase()\<close> is empty and the fallback is disabled, each of the
  five operations throws the error ``Backend unavailable and fallback disabled.'', and it
  has done nothing before: the trace holds no request and no delay, and the fallback
  dataset is as it was. This holds whatever \<^verbatim>\<open>fetch\<close> would have done.
\<close>

theorem unavailable_without_base_and_fallback:
  assumes "getApiBase cfg = []" and "\<not> enableFallback cfg"
  shows "listNotes cfg f1 fb = \<lparr>result = Inl unavailable, store = fb, trace = []\<rparr>
       \<and> getNote cfg f2 fb i = \<lparr>result = Inl unavailable, store = fb, trace = []\<rparr>
       \<and> createNote cfg f3 rid now fb p = \<lparr>result = Inl unavailable, store = fb, trace = []\<rparr>
       \<and> updateNote cfg f4 now fb i p = \<lparr>result = Inl unavailable, store = fb, trace = []\<rparr>
       \<and> deleteNote cfg f5 fb i = \<lparr>result = Inl unavailable, store = fb, trace = []\<rparr>
       \<and> message unavailable = ''Backend unavailable and fallback disabled.''"
  using assms
  by (simp add: listNotes_def getNote_def createNote_def updateNote_def deleteNote_def
      remote_no_base requested_no_base unavailable_def Error_def)

theorem unavailable_without_base_and_fallback_witness:
  "getApiBase \<lparr>REACT_APP_API_BASE = None, REACT_APP_BACKEND_URL = Some [], enableFallback = False\<rparr> = []
   \<and> result (listNotes \<lparr>REACT_APP_API_BASE = None, REACT_APP_BACKEND_URL = Some [], enableFallback = False\<rparr>
        (Inl (Error ''Failed to fetch'')) []) = Inl (Error ''Backend unavailable and fallback disabled.'')
   \<and> trace (deleteNote \<lparr>REACT_APP_API_BASE = None, REACT_APP_BACKEND_URL = Some [], enableFallback = False\<rparr>
        (Inl (Error ''Failed to fetch'') :: js_error + unit response) [] ''1'') = []"
  using unavailable_without_base_and_fallback
    [of "\<lparr>REACT_APP_API_BASE = None, REACT_APP_BACKEND_URL = Some [], enableFallback = False\<rparr>"
        "Inl (Error ''Failed to fetch'')" "[]" _ "''1''" _ _ _ _ _ "Inl (Error ''Failed to fetch'') :: js_error + unit response"]
  by (simp add: getApiBase_def or_else_def unavailable_def)


subsection \<open>C6: an id the fallback dataset does not have\<close>

text \<open>
  The claim says that the fallback \<^verbatim>\<open>deleteNote\<close> throws ``not found'' too. It does
  not: with the seeded dataset and the id \<^verbatim>\<open>'2'\<close> it returns \<^verbatim>\<open>true\<close>.
\<close>

theorem fallback_delete_missing_counterexample:
  "''2'' \<notin> note_id ` set [seed]
   \<and> enableFallback configured \<and> unreachable configured (down :: js_error + unit response)
   \<and> deleteNote configured (down :: js_error + unit response) [seed] ''2'' =
       \<lparr>result = Inr True, store = [seed],
        trace = [Fetch DELETE ''http://localhost:3001'' (Some ''2''), FakeDelay 300]\<rparr>
   \<and> result (deleteNote configured (down :: js_error + unit response) [seed] ''2'') \<noteq> Inl not_found
   \<and> result (deleteNote offline (down :: js_error + unit response) [seed] ''2'') = Inr True"
  by (simp add: deleteNote_def remote_none requested_def configured_facts offline_facts seed_def)

text \<open>
  Claim C6, as amended. With the fallback enabled and no backend reachable, for an id
  that no note of the fallback dataset has: \<^verbatim>\<open>getNote\<close> and \<^verbatim>\<open>updateNote\<close> throw
  ``Note not found'' and leave the dataset as it was; \<^verbatim>\<open>deleteNote\<close> returns \<^verbatim>\<open>true\<close>
  and leaves the dataset as it was.
\<close>

theorem fallback_missing_id:
  assumes "enableFallback cfg" and "i \<notin> note_id ` set fb"
    and "unreachable cfg f_get" and "unreachable cfg f_update" and "unreachable cfg f_delete"
  shows "result (getNote cfg f_get fb i) = Inl not_found
       \<and> store (getNote cfg f_get fb i) = fb
       \<and> result (updateNote cfg f_update now fb i p) = Inl not_found
       \<and> store (updateNote cfg f_update now fb i p) = fb
       \<and> message not_found = ''Note not found''
       \<and> result (deleteNote cfg f_delete fb i) = Inr True
       \<and> store (deleteNote cfg f_delete fb i) = fb"
proof -
  have "filter (\<lambda>n. note_id n \<noteq> i) fb = fb"
    using assms(2) by (induction fb) auto
  then show ?thesis
    using assms
    by (simp add: getNote_def updateNote_def deleteNote_def remote_none find_absent
        findIndex_absent not_found_def Error_def)
qed

theorem fallback_missing_id_witness:
  "enableFallback offline \<and> ''2'' \<notin> note_id ` set [seed]
   \<and> result (getNote offline (Inl (Error ''Failed to fetch'')) [seed] ''2'') = Inl (Error ''Note not found'')
   \<and> result (updateNote offline (Inl (Error ''Failed to fetch'')) 200 [seed] ''2''
        \<lparr>ptitle = Some ''A'', pcontent = None\<rparr>) = Inl (Error ''Note not found'')
   \<and> store (deleteNote offline (Inl (Error ''Failed to fetch'') :: js_error + unit response) [seed] ''2'') = [seed]"
  using fallback_missing_id [of offline "''2''" "[seed]" "Inl (Error ''Failed to fetch'')"
      "Inl (Error ''Failed to fetch'')" "Inl (Error ''Failed to fetch'') :: js_error + unit response"
      200 "\<lparr>ptitle = Some ''A'', pcontent = None\<rparr>"]
  by (simp add: offline_facts seed_def not_found_def)

subsection \<open>C10: the fallback update\<close>

text \<open>
  Claim C10. With the fallback enabled and no backend reachable, for an id that a note
  of the fallback dataset has, \<^verbatim>\<open>updateNote\<close> returns a note with that id, whose title
  and content are the payload's where the payload has them and the stored note's where
  it has not, and whose \<open>updatedAt\<close> is the clock reading. The dataset afterwards is the
  old one with the first note of that id replaced by the returned note: its length is
  unchanged and every other position holds what it held.
\<close>

theorem fallback_update_frame:
  assumes "enableFallback cfg" and "unreachable cfg fetched" and "i \<in> note_id ` set fb"
  shows "\<exists>idx u. idx < length fb \<and> note_id (fb ! idx) = i \<and> (\<forall>j<idx. note_id (fb ! j) \<noteq> i)
           \<and> result (updateNote cfg fetched now fb i p) = Inr (Some u)
           \<and> note_id u = i
           \<and> title u = (case ptitle p of None \<Rightarrow> title (fb ! idx) | Some t \<Rightarrow> t)
           \<and> content u = (case pcontent p of None \<Rightarrow> content (fb ! idx) | Some c \<Rightarrow> c)
           \<and> updatedAt u = now
           \<and> store (updateNote cfg fetched now fb i p) = fb[idx := u]
           \<and> length (store (updateNote cfg fetched now fb i p)) = length fb
           \<and> (\<forall>j<length fb. j \<noteq> idx \<longrightarrow> store (updateNote cfg fetched now fb i p) ! j = fb ! j)"
proof -
  from assms(3) have "\<exists>x\<in>set fb. note_id x = i" by auto
  then obtain idx where idx: "findIndex (\<lambda>n. note_id n = i) fb = Some idx"
    using findIndex_present [of fb "\<lambda>n. note_id n = i"] by blast
  from findIndex_Some [OF idx]
  have 1: "idx < length fb" "note_id (fb ! idx) = i" "\<forall>j<idx. note_id (fb ! j) \<noteq> i"
    by simp_all
  let ?u = "merged (fb ! idx) p now"
  have 2: "updateNote cfg fetched now fb i p =
      \<lparr>result = Inr (Some ?u), store = fb[idx := ?u],
       trace = requested cfg PUT (Some i) @ [FakeDelay 300]\<rparr>"
    using assms(1,2) idx by (simp add: updateNote_def remote_none Let_def)
  have 3: "note_id ?u = i" "updatedAt ?u = now"
      "title ?u = (case ptitle p of None \<Rightarrow> title (fb ! idx) | Some t \<Rightarrow> t)"
      "content ?u = (case pcontent p of None \<Rightarrow> content (fb ! idx) | Some c \<Rightarrow> c)"
    using 1(2) by (simp_all add: merged_def)
  show ?thesis
    apply (rule exI [of _ idx], rule exI [of _ ?u])
    using 1 2 3 by simp
qed

theorem fallback_update_frame_witness:
  "enableFallback configured \<and> unreachable configured (down :: js_error + Note response)
   \<and> ''1'' \<in> note_id ` set [server_note, seed]
   \<and> (\<exists>u. result (updateNote configured down 200 [server_note, seed] ''1''
              \<lparr>ptitle = Some ''A'', pcontent = None\<rparr>) = Inr (Some u)
          \<and> note_id u = ''1'' \<and> title u = ''A'' \<and> content u = content seed \<and> updatedAt u = 200
          \<and> store (updateNote configured down 200 [server_note, seed] ''1''
              \<lparr>ptitle = Some ''A'', pcontent = None\<rparr>) = [server_note, u])"
  using fallback_update_frame [of configured down "''1''" "[server_note, seed]" 200
      "\<lparr>ptitle = Some ''A'', pcontent = None\<rparr>"]
  by (auto simp: configured_facts seed_def server_note_def less_Suc_eq_0_disj)

subsection \<open>C7: the fallback listing\<close>

lemma mset_place: "mset (place cmp x ys) = add_mset x (mset ys)"
  by (induction ys) simp_all

lemma mset_js_sort: "mset (js_sort cmp xs) = mset xs"
  by (induction xs) (simp_all add: mset_place)

lemma set_place: "set (place cmp x ys) = insert x (set ys)"
  by (induction ys) auto

lemma set_js_sort: "set (js_sort cmp xs) = set xs"
  by (induction xs) (simp_all add: set_place)

lemma newest_first_le: "newest_first x y \<le> 0 \<longleftrightarrow> updatedAt y \<le> updatedAt x"
  by (simp add: newest_first_def)

lemma sorted_place:
  "sorted_wrt (\<lambda>a b. updatedAt b \<le> updatedAt a) ys
   \<Longrightarrow> sorted_wrt (\<lambda>a b. updatedAt b \<le> updatedAt a) (place newest_first x ys)"
proof (induction ys)
  case Nil
  then show ?case by simp
next
  case (Cons y ys)
  show ?case
  proof (cases "updatedAt y \<le> updatedAt x")
    case True
    with Cons.prems show ?thesis
      by (auto simp: newest_first_le)
  next
    case False
    with Cons show ?thesis
      by (auto simp: newest_first_le set_place)
  qed
qed

lemma sorted_js_sort:
  "sorted_wrt (\<lambda>a b. updatedAt b \<le> updatedAt a) (js_sort newest_first xs)"
  by (induction xs) (simp_all add: sorted_place)

lemma stable_place:
  "filter (\<lambda>n. updatedAt n = t) (place newest_first x ys) =
   filter (\<lambda>n. updatedAt n = t) (x # ys)"
  by (induction ys) (auto simp: newest_first_le)

lemma stable_js_sort:
  "filter (\<lambda>n. updatedAt n = t) (js_sort newest_first xs) = filter (\<lambda>n. updatedAt n = t) xs"
  by (induction xs) (simp_all add: stable_place)

lemma place_front:
  "\<forall>y\<in>set ys. updatedAt y \<le> updatedAt x \<Longrightarrow> place newest_first x ys = x # ys"
  by (cases ys) (simp_all add: newest_first_le)

lemma listNotes_fallback:
  "enableFallback cfg \<Longrightarrow> unreachable cfg fetched \<Longrightarrow>
   listNotes cfg fetched fb =
     \<lparr>result = Inr (Some (js_sort newest_first fb)), store = fb,
      trace = requested cfg GET None @ [FakeDelay 300]\<rparr>"
  by (simp add: listNotes_def remote_none)

text \<open>
  The claim says that the created note is the first element of a later listing. The
  listing is ordered by \<open>updatedAt\<close>, not by the order of the dataset, so the place of
  the new note depends on the timestamps. With the seeded note stamped 100: a note
  created when the clock reads 50 is listed second; and a note created at 200 is listed
  second once the seeded note has been updated at 300.
\<close>

theorem fallback_create_not_first_counterexample:
  "enableFallback offline
   \<and> unreachable offline (Inl (Error ''Failed to fetch'') :: js_error + Note response)
   \<and> unreachable offline (Inl (Error ''Failed to fetch'') :: js_error + Note list response)
   \<and> result (createNote offline (Inl (Error ''Failed to fetch'')) ''k3j9x0q2'' 50 [seed]
        \<lparr>ptitle = Some ''A'', pcontent = Some ''B''\<rparr>)
       = Inr (Some \<lparr>note_id = ''k3j9x0q2'', title = ''A'', content = ''B'', updatedAt = 50\<rparr>)
   \<and> result (listNotes offline (Inl (Error ''Failed to fetch''))
        (store (createNote offline (Inl (Error ''Failed to fetch'')) ''k3j9x0q2'' 50 [seed]
           \<lparr>ptitle = Some ''A'', pcontent = Some ''B''\<rparr>)))
       = Inr (Some [seed, \<lparr>note_id = ''k3j9x0q2'', title = ''A'', content = ''B'', updatedAt = 50\<rparr>])
   \<and> result (listNotes offline (Inl (Error ''Failed to fetch''))
        (store (updateNote offline (Inl (Error ''Failed to fetch'')) 300
           (store (createNote offline (Inl (Error ''Failed to fetch'')) ''k3j9x0q2'' 200 [seed]
              \<lparr>ptitle = Some ''A'', pcontent = Some ''B''\<rparr>))
           ''1'' \<lparr>ptitle = Some ''W'', pcontent = None\<rparr>)))
       = Inr (Some [seed\<lparr>title := ''W'', updatedAt := 300\<rparr>,
                    \<lparr>note_id = ''k3j9x0q2'', title = ''A'', content = ''B'', updatedAt = 200\<rparr>])"
  by (simp add: offline_facts listNotes_def createNote_def updateNote_def remote_no_base
      requested_no_base seed_def or_else_def newest_first_def merged_def Let_def)

text \<open>
  Claim C7, as amended. With the fallback enabled and no backend reachable,
  \<^verbatim>\<open>listNotes\<close> returns the notes of the fallback dataset (the same notes, as a
  multiset) ordered by \<open>updatedAt\<close>, latest first, notes of equal \<open>updatedAt\<close> in the
  order of the dataset, and leaves the dataset as it was. \<^verbatim>\<open>createNote\<close> returns a note
  with the generated id, stamped with the clock reading, and puts it in front of the
  dataset. If no note of the dataset has a later \<open>updatedAt\<close> than the clock reading, the
  listing that follows the creation is the new note followed by the old listing.
\<close>

theorem fallback_list_sorted_create_first:
  assumes "enableFallback cfg" and "unreachable cfg f_list" and "unreachable cfg f_create"
  shows "\<exists>listed created.
           result (listNotes cfg f_list fb) = Inr (Some listed)
         \<and> store (listNotes cfg f_list fb) = fb
         \<and> mset listed = mset fb
         \<and> sorted_wrt (\<lambda>a b. updatedAt b \<le> updatedAt a) listed
         \<and> (\<forall>t. filter (\<lambda>n. updatedAt n = t) listed = filter (\<lambda>n. updatedAt n = t) fb)
         \<and> result (createNote cfg f_create random_id now fb p) = Inr (Some created)
         \<and> note_id created = random_id
         \<and> updatedAt created = now
         \<and> store (createNote cfg f_create random_id now fb p) = created # fb
         \<and> ((\<forall>n\<in>set fb. updatedAt n \<le> now) \<longrightarrow>
              result (listNotes cfg f_list (store (createNote cfg f_create random_id now fb p)))
                = Inr (Some (created # listed)))"
proof -
  let ?new = "\<lparr>note_id = random_id, title = or_else (ptitle p) ''Untitled'',
                content = or_else (pcontent p) [], updatedAt = now\<rparr>"
  have c: "createNote cfg f_create random_id now fb p =
      \<lparr>result = Inr (Some ?new), store = ?new # fb,
       trace = requested cfg POST None @ [FakeDelay 300]\<rparr>"
    using assms(1,3) by (simp add: createNote_def remote_none Let_def)
  have front: "(\<forall>n\<in>set fb. updatedAt n \<le> now) \<longrightarrow>
      js_sort newest_first (?new # fb) = ?new # js_sort newest_first fb"
  proof
    assume "\<forall>n\<in>set fb. updatedAt n \<le> now"
    then have "\<forall>y\<in>set (js_sort newest_first fb). updatedAt y \<le> updatedAt ?new"
      by (simp add: set_js_sort)
    then show "js_sort newest_first (?new # fb) = ?new # js_sort newest_first fb"
      using place_front [of "js_sort newest_first fb" ?new] by simp
  qed
  show ?thesis
    apply (rule exI [of _ "js_sort newest_first fb"], rule exI [of _ ?new])
    using front
    by (simp add: c listNotes_fallback [OF assms(1,2)] mset_js_sort sorted_js_sort stable_js_sort)
qed

theorem fallback_list_sorted_create_first_witness:
  "enableFallback offline \<and> updatedAt seed \<le> 200
   \<and> result (listNotes offline (Inl (Error ''Failed to fetch''))
        (store (createNote offline (Inl (Error ''Failed to fetch'')) ''k3j9x0q2'' 200 [seed]
           \<lparr>ptitle = Some ''A'', pcontent = Some ''B''\<rparr>)))
       = Inr (Some [\<lparr>note_id = ''k3j9x0q2'', title = ''A'', content = ''B'', updatedAt = 200\<rparr>, seed])"
  using fallback_list_sorted_create_first [of offline "Inl (Error ''Failed to fetch'')"
      "Inl (Error ''Failed to fetch'')" "[seed]" "''k3j9x0q2''" 200
      "\<lparr>ptitle = Some ''A'', pcontent = Some ''B''\<rparr>"]
  by (simp add: offline_facts seed_def listNotes_def createNote_def remote_no_base
      requested_no_base or_else_def newest_first_def Let_def)

subsection \<open>The view state: evaluation and the effect\<close>

lemmas handler_defs =
  refresh_begin_def refresh_end_def refresh_def onSelect_def onCreate_def startEdit_def
  cancelEdit_def handleSave_begin_def handleSave_created_def handleSave_updated_def
  handleSave_refreshed_def handleSave_failed_def handleDelete_begin_def
  handleDelete_deleted_def handleDelete_failed_def

lemmas run_defs =
  handler_defs step_def selection_effect_def falsy_def activeNote_def temp_id_def
  decimal.simps initial_def seed_def draft_def server_note_def merged_def or_else_def
  shown_def Error_def Let_def

lemma loaded_eq:
  "loaded = \<lparr>notes = [seed], status = Success, error = [], activeId = Some ''1'', mode = Viewing,
             saving = False, alerts = [], calls = [CallList]\<rparr>"
  by (simp add: loaded_def run_defs)


lemma selection_effect_notes: "notes (selection_effect s) = notes s"
  by (simp add: selection_effect_def)

lemma step_notes:
  "notes (step e s) = notes (handler e s)"
  by (simp add: step_def Let_def selection_effect_notes)

lemma find_filter_hd:
  "find P xs = (case filter P xs of [] \<Rightarrow> None | x # ys \<Rightarrow> Some x)"
  by (induction xs) simp_all

lemma activeNote_id:
  "activeNote s = Some a \<Longrightarrow> activeId s = Some (note_id a) \<and> a \<in> set (notes s)"
  by (auto simp: activeNote_def find_Some_iff split: option.splits)

subsection \<open>C8: \<^verbatim>\<open>refresh\<close>\<close>

text \<open>
  Claim C8. \<^verbatim>\<open>refresh\<close> first sets the status to loading and keeps the notes. When
  \<^verbatim>\<open>listNotes\<close> throws, the status becomes \<^verbatim>\<open>'error'\<close> (\<open>Failed\<close>), the notes held
  before are kept, and the stored error is the message of the failure (the text
  ``Failed to load notes'' when the failure has no message). When \<^verbatim>\<open>listNotes\<close>
  returns, the status becomes success, the error stays empty and the returned notes are
  stored (none, when it returned \<^verbatim>\<open>null\<close>). The same holds of the notes after the
  render that follows.
\<close>

theorem refresh_outcomes:
  "status (refresh_begin s) = Loading \<and> notes (refresh_begin s) = notes s
   \<and> status (refresh (Inl e) s) = Failed
   \<and> notes (refresh (Inl e) s) = notes s
   \<and> (message e \<noteq> [] \<longrightarrow> error (refresh (Inl e) s) = message e)
   \<and> (message e = [] \<longrightarrow> error (refresh (Inl e) s) = ''Failed to load notes'')
   \<and> status (refresh (Inr data) s) = Success
   \<and> error (refresh (Inr data) s) = []
   \<and> notes (refresh (Inr (Some listed)) s) = listed
   \<and> notes (refresh (Inr None) s) = []
   \<and> notes (step (Listed (Inl e)) s) = notes s
   \<and> notes (step (Listed (Inr (Some listed))) s) = listed"
  by (simp add: refresh_def refresh_begin_def refresh_end_def or_else_def step_def
      selection_effect_notes)

theorem refresh_outcomes_witness:
  "message (Error ''Failed to fetch'') \<noteq> []
   \<and> refresh (Inl (Error ''Failed to fetch'')) loaded =
       loaded\<lparr>status := Failed, error := ''Failed to fetch'', calls := [CallList, CallList]\<rparr>
   \<and> notes (refresh (Inl (Error ''Failed to fetch'')) loaded) = [seed]
   \<and> notes (refresh (Inr (Some [server_note, seed])) loaded) = [server_note, seed]"
  using refresh_outcomes [of loaded "Error ''Failed to fetch''" _ "[server_note, seed]"]
  by (simp add: loaded_eq refresh_def refresh_begin_def refresh_end_def or_else_def Error_def)


subsection \<open>C2: the create handler\<close>

lemma create_begin:
  assumes "mode s = Creating"
  shows "handleSave_begin p tick now s =
           s\<lparr>saving := True,
             notes := \<lparr>note_id = temp_id tick, title = or_else (ptitle p) ''Untitled'',
                       content = or_else (pcontent p) [], updatedAt = now\<rparr> # notes s,
             activeId := Some (temp_id tick), mode := Viewing,
             calls := calls s @ [CallCreate p]\<rparr>"
  using assms by (simp add: handleSave_begin_def Let_def)

lemma temp_id_nonempty: "temp_id tick \<noteq> []"
  by (simp add: temp_id_def)

lemma create_begin_step:
  assumes "mode s = Creating"
  shows "step (Save p tick now) s = handleSave_begin p tick now s"
  using assms
  by (simp add: step_def create_begin selection_effect_def falsy_def temp_id_nonempty Let_def)

lemma created_step:
  "step (Created tempId created) s = handleSave_created tempId created s"
  by (simp add: step_def handleSave_created_def selection_effect_def falsy_def Let_def)

text \<open>
  Claim C2. In mode \<open>Creating\<close>, \<^verbatim>\<open>handleSave\<close> first puts an optimistic note with
  the temporary id \<^verbatim>\<open>temp_<Date.now()>\<close> in front of the collection, makes that id the
  active one, sets the mode to \<open>Viewing\<close> and calls \<^verbatim>\<open>createNote\<close>; the effect that
  follows the render changes nothing. When \<^verbatim>\<open>createNote\<close> has returned \<open>created\<close>,
  whatever the state \<open>s2\<close> is by then, the collection becomes \<open>created\<close> followed by
  the notes whose id is not the temporary one, the active id becomes the id of
  \<open>created\<close> and the mode is \<open>Viewing\<close>; again the effect changes nothing. When nothing
  happens in between and the temporary id was not in use, the collection at the end is
  \<open>created\<close> followed by the collection at the start.
\<close>

theorem create_optimistic_then_replaced:
  assumes "mode s = Creating"
  shows "notes (handleSave_begin p tick now s) =
           \<lparr>note_id = temp_id tick, title = or_else (ptitle p) ''Untitled'',
            content = or_else (pcontent p) [], updatedAt = now\<rparr> # notes s
       \<and> activeId (handleSave_begin p tick now s) = Some (temp_id tick)
       \<and> mode (handleSave_begin p tick now s) = Viewing
       \<and> calls (handleSave_begin p tick now s) = calls s @ [CallCreate p]
       \<and> step (Save p tick now) s = handleSave_begin p tick now s
       \<and> notes (handleSave_created (temp_id tick) created s2) =
           created # filter (\<lambda>n. note_id n \<noteq> temp_id tick) (notes s2)
       \<and> activeId (handleSave_created (temp_id tick) created s2) = Some (note_id created)
       \<and> mode (handleSave_created (temp_id tick) created s2) = Viewing
       \<and> step (Created (temp_id tick) created) s2 = handleSave_created (temp_id tick) created s2
       \<and> notes (run [Save p tick now, Created (temp_id tick) created] s) =
           created # filter (\<lambda>n. note_id n \<noteq> temp_id tick) (notes s)
       \<and> (temp_id tick \<notin> note_id ` set (notes s) \<longrightarrow>
            notes (run [Save p tick now, Created (temp_id tick) created] s) = created # notes s)
       \<and> activeId (run [Save p tick now, Created (temp_id tick) created] s) = Some (note_id created)
       \<and> mode (run [Save p tick now, Created (temp_id tick) created] s) = Viewing"
proof -
  have r: "run [Save p tick now, Created (temp_id tick) created] s =
      handleSave_created (temp_id tick) created (handleSave_begin p tick now s)"
    by (simp add: create_begin_step [OF assms] created_step)
  have f: "temp_id tick \<notin> note_id ` set (notes s) \<longrightarrow>
      filter (\<lambda>n. note_id n \<noteq> temp_id tick) (notes s) = notes s"
    by (auto simp: filter_id_conv image_iff)
  show ?thesis
    using f
    by (simp add: r create_begin [OF assms] create_begin_step [OF assms] created_step
        handleSave_created_def)
qed

theorem create_optimistic_then_replaced_witness:
  "mode (step Create initial) = Creating
   \<and> step (Save draft 5 200) (step Create initial) =
       \<lparr>notes = [\<lparr>note_id = ''temp_5'', title = ''T1'', content = [], updatedAt = 200\<rparr>],
        status = Idle, error = [], activeId = Some ''temp_5'', mode = Viewing, saving = True,
        alerts = [], calls = [CallCreate draft]\<rparr>
   \<and> run [Save draft 5 200, Created (temp_id 5) server_note] (step Create initial) =
       \<lparr>notes = [server_note], status = Idle, error = [], activeId = Some ''7'', mode = Viewing,
        saving = False, alerts = [], calls = [CallCreate draft]\<rparr>"
  using create_optimistic_then_replaced [of "step Create initial" draft 5 200 server_note initial]
  by (simp add: run_defs)


subsection \<open>C3: the delete handler\<close>

lemma delete_begin:
  assumes "activeNote s = Some a"
  shows "handleDelete_begin True s =
           s\<lparr>notes := filter (\<lambda>n. note_id n \<noteq> note_id a) (notes s), activeId := None,
             mode := Empty, calls := calls s @ [CallDelete (note_id a)]\<rparr>"
    and "handleDelete_begin False s = s"
  using assms by (simp_all add: handleDelete_begin_def)

lemma deleted_other:
  assumes "filter (\<lambda>n. note_id n \<noteq> d) snapshot \<noteq> []" and "d \<in> note_id ` set snapshot"
  shows "handleDelete_deleted d snapshot s2 =
           s2\<lparr>activeId := Some (note_id (hd (filter (\<lambda>n. note_id n \<noteq> d) snapshot))),
              mode := Viewing\<rparr>"
proof -
  from assms obtain x y where "x \<in> set snapshot" "y \<in> set snapshot" "note_id x \<noteq> d" "note_id y = d"
    by (fastforce simp: filter_empty_conv)
  then have "x \<noteq> y" by auto
  with \<open>x \<in> set snapshot\<close> \<open>y \<in> set snapshot\<close> have "1 < length snapshot"
    by (cases snapshot; cases "tl snapshot") auto
  with assms(1) show ?thesis
    by (simp add: handleDelete_deleted_def find_filter_hd split: list.splits)
qed

lemma deleted_none:
  assumes "filter (\<lambda>n. note_id n \<noteq> d) snapshot = []"
  shows "handleDelete_deleted d snapshot s2 = s2"
  using assms by (simp add: handleDelete_deleted_def find_filter_hd)

lemma delete_begin_step:
  assumes "activeNote s = Some a"
  shows "step (Delete True) s = selection_effect (handleDelete_begin True s)"
  using assms by (simp add: step_def)

text \<open>
  Claim C3. With an active note \<open>a\<close>: without the user's confirmation \<^verbatim>\<open>handleDelete\<close>
  does nothing. With it, the handler removes the notes with the id of \<open>a\<close> from the
  collection, clears the active id, sets the mode to \<open>Empty\<close> and calls \<^verbatim>\<open>deleteNote\<close>.
  When \<^verbatim>\<open>deleteNote\<close> has returned, whatever the state \<open>s2\<close> is by then: if the
  collection the handler was called with held a note of another id, the active id
  becomes the id of the first such note and the mode \<open>Viewing\<close>, and the collection is not
  touched; that note is then the first of the collection. If \<open>a\<close> was the only note, the
  state is not touched: the collection is empty, no note is active and the mode is
  \<open>Empty\<close>. When \<^verbatim>\<open>deleteNote\<close> has thrown \<open>e\<close>, the handler shows
  ``Error deleting note: ...'' and starts \<^verbatim>\<open>refresh()\<close>: the status is loading and
  \<^verbatim>\<open>listNotes\<close> is called, and what it returns replaces the collection.
\<close>

theorem delete_handler:
  assumes "activeNote s = Some a"
  shows "handleDelete_begin False s = s
       \<and> notes (handleDelete_begin True s) = filter (\<lambda>n. note_id n \<noteq> note_id a) (notes s)
       \<and> a \<notin> set (notes (handleDelete_begin True s))
       \<and> activeId (handleDelete_begin True s) = None
       \<and> mode (handleDelete_begin True s) = Empty
       \<and> calls (handleDelete_begin True s) = calls s @ [CallDelete (note_id a)]
       \<and> ((\<exists>n\<in>set (notes s). note_id n \<noteq> note_id a) \<longrightarrow>
            activeId (handleDelete_deleted (note_id a) (notes s) s2)
              = Some (note_id (hd (filter (\<lambda>n. note_id n \<noteq> note_id a) (notes s))))
          \<and> mode (handleDelete_deleted (note_id a) (notes s) s2) = Viewing
          \<and> notes (handleDelete_deleted (note_id a) (notes s) s2) = notes s2
          \<and> activeId (run [Delete True, Deleted (note_id a) (notes s)] s)
              = Some (note_id (hd (notes (run [Delete True, Deleted (note_id a) (notes s)] s))))
          \<and> mode (run [Delete True, Deleted (note_id a) (notes s)] s) = Viewing)
       \<and> (notes s = [a] \<longrightarrow>
            handleDelete_deleted (note_id a) (notes s) s2 = s2
          \<and> notes (run [Delete True, Deleted (note_id a) (notes s)] s) = []
          \<and> activeId (run [Delete True, Deleted (note_id a) (notes s)] s) = None
          \<and> mode (run [Delete True, Deleted (note_id a) (notes s)] s) = Empty)
       \<and> alerts (handleDelete_failed e s2) = alerts s2 @ [''Error deleting note: '' @ shown e]
       \<and> calls (handleDelete_failed e s2) = calls s2 @ [CallList]
       \<and> status (handleDelete_failed e s2) = Loading
       \<and> notes (run [Delete True, DeleteFailed e, Listed (Inr (Some listed))] s) = listed"
proof -
  let ?rest = "filter (\<lambda>n. note_id n \<noteq> note_id a) (notes s)"
  let ?s1 = "handleDelete_begin True s"
  note b = delete_begin [OF assms]
  from activeNote_id [OF assms] have a: "activeId s = Some (note_id a)" "a \<in> set (notes s)"
    by simp_all
  have start: "handleDelete_begin False s = s" "notes ?s1 = ?rest" "a \<notin> set (notes ?s1)"
      "activeId ?s1 = None" "mode ?s1 = Empty" "calls ?s1 = calls s @ [CallDelete (note_id a)]"
    by (simp_all add: b)
  have other: "(\<exists>n\<in>set (notes s). note_id n \<noteq> note_id a) \<longrightarrow>
            activeId (handleDelete_deleted (note_id a) (notes s) s2) = Some (note_id (hd ?rest))
          \<and> mode (handleDelete_deleted (note_id a) (notes s) s2) = Viewing
          \<and> notes (handleDelete_deleted (note_id a) (notes s) s2) = notes s2
          \<and> activeId (run [Delete True, Deleted (note_id a) (notes s)] s)
              = Some (note_id (hd (notes (run [Delete True, Deleted (note_id a) (notes s)] s))))
          \<and> mode (run [Delete True, Deleted (note_id a) (notes s)] s) = Viewing"
  proof
    assume "\<exists>n\<in>set (notes s). note_id n \<noteq> note_id a"
    then have ne: "?rest \<noteq> []" by (auto simp: filter_empty_conv)
    have d: "\<And>t. handleDelete_deleted (note_id a) (notes s) t =
        t\<lparr>activeId := Some (note_id (hd ?rest)), mode := Viewing\<rparr>"
      using deleted_other [OF ne] a(2) by blast
    have s1: "step (Delete True) s =
        ?s1\<lparr>activeId := Some (note_id (hd ?rest)), mode := Viewing\<rparr>"
      using ne by (simp add: delete_begin_step [OF assms] b selection_effect_def falsy_def)
    have s2: "step (Deleted (note_id a) (notes s))
          (?s1\<lparr>activeId := Some (note_id (hd ?rest)), mode := Viewing\<rparr>) =
        ?s1\<lparr>activeId := Some (note_id (hd ?rest)), mode := Viewing\<rparr>"
      by (simp add: step_def d Let_def)
    have r: "run [Delete True, Deleted (note_id a) (notes s)] s =
        ?s1\<lparr>activeId := Some (note_id (hd ?rest)), mode := Viewing\<rparr>"
      by (simp add: s1 s2)
    show "activeId (handleDelete_deleted (note_id a) (notes s) s2) = Some (note_id (hd ?rest))
          \<and> mode (handleDelete_deleted (note_id a) (notes s) s2) = Viewing
          \<and> notes (handleDelete_deleted (note_id a) (notes s) s2) = notes s2
          \<and> activeId (run [Delete True, Deleted (note_id a) (notes s)] s)
              = Some (note_id (hd (notes (run [Delete True, Deleted (note_id a) (notes s)] s))))
          \<and> mode (run [Delete True, Deleted (note_id a) (notes s)] s) = Viewing"
      unfolding r by (simp add: d b)
  qed
  have only: "notes s = [a] \<longrightarrow>
            handleDelete_deleted (note_id a) (notes s) s2 = s2
          \<and> notes (run [Delete True, Deleted (note_id a) (notes s)] s) = []
          \<and> activeId (run [Delete True, Deleted (note_id a) (notes s)] s) = None
          \<and> mode (run [Delete True, Deleted (note_id a) (notes s)] s) = Empty"
  proof
    assume one: "notes s = [a]"
    then have e: "?rest = []" by simp
    have d: "\<And>t. handleDelete_deleted (note_id a) (notes s) t = t"
      using deleted_none [OF e] by blast
    have s1: "step (Delete True) s = ?s1"
      using e by (simp add: delete_begin_step [OF assms] b selection_effect_def)
    have s2: "step (Deleted (note_id a) (notes s)) ?s1 = ?s1"
      by (simp add: step_def d Let_def)
    have r: "run [Delete True, Deleted (note_id a) (notes s)] s = ?s1"
      by (simp add: s1 s2)
    show "handleDelete_deleted (note_id a) (notes s) s2 = s2
          \<and> notes (run [Delete True, Deleted (note_id a) (notes s)] s) = []
          \<and> activeId (run [Delete True, Deleted (note_id a) (notes s)] s) = None
          \<and> mode (run [Delete True, Deleted (note_id a) (notes s)] s) = Empty"
      using e unfolding r by (simp add: d b)
  qed
  have failed: "alerts (handleDelete_failed e s2) = alerts s2 @ [''Error deleting note: '' @ shown e]"
      "calls (handleDelete_failed e s2) = calls s2 @ [CallList]"
      "status (handleDelete_failed e s2) = Loading"
    by (simp_all add: handleDelete_failed_def refresh_begin_def)
  have reload: "notes (run [Delete True, DeleteFailed e, Listed (Inr (Some listed))] s) = listed"
    by (simp add: step_notes refresh_end_def)
  from start other only failed reload show ?thesis
    by blast
qed

theorem delete_handler_witness:
  "activeNote loaded = Some seed \<and> notes loaded = [seed]
   \<and> run [Delete True, Deleted (note_id seed) (notes loaded)] loaded =
       \<lparr>notes = [], status = Success, error = [], activeId = None, mode = Empty, saving = False,
        alerts = [], calls = [CallList, CallDelete ''1'']\<rparr>
   \<and> (\<exists>n\<in>set [server_note, seed]. note_id n \<noteq> note_id seed)
   \<and> activeNote (loaded\<lparr>notes := [server_note, seed]\<rparr>) = Some seed
   \<and> activeId (run [Delete True, Deleted ''1'' [server_note, seed]]
        (loaded\<lparr>notes := [server_note, seed]\<rparr>)) = Some ''7''"
  using delete_handler [of loaded seed initial "Error []" "[]"]
    delete_handler [of "loaded\<lparr>notes := [server_note, seed]\<rparr>" seed initial "Error []" "[]"]
  by (simp add: loaded_eq run_defs)

subsection \<open>C4: the update handler\<close>

lemma update_begin:
  assumes "mode s = Editing" and "activeNote s = Some a"
  shows "handleSave_begin p tick now s =
           s\<lparr>saving := True,
             notes := map (\<lambda>n. if note_id n = note_id a then merged a p now else n) (notes s),
             calls := calls s @ [CallUpdate (note_id a) p]\<rparr>"
  using assms by (simp add: handleSave_begin_def Let_def)

lemma merged_id: "note_id (merged a p now) = note_id a"
  by (simp add: merged_def)

lemma map_merged_ids:
  "map note_id (map (\<lambda>n. if note_id n = note_id a then merged a p now else n) xs) = map note_id xs"
  by (induction xs) (simp_all add: merged_id)

text \<open>
  The claim says that \<^verbatim>\<open>refresh()\<close> is called whether or not \<^verbatim>\<open>updateNote\<close> fails,
  and that the mode is then set to viewing. The two statements stand in the \<^verbatim>\<open>try\<close>
  block after \<^verbatim>\<open>await updateNote(...)\<close>, so a failure skips both. Editing the loaded
  note and saving, with \<^verbatim>\<open>updateNote\<close> throwing: the only calls after the first listing
  are the update itself, the status is still that of the first listing, the mode is
  still \<open>Editing\<close>, and the failure has been shown.
\<close>

theorem update_failure_counterexample:
  "mode (step Edit loaded) = Editing \<and> activeNote (step Edit loaded) = Some seed
   \<and> calls (step Edit loaded) = [CallList]
   \<and> calls (run [Save draft 5 200, SaveFailed (Error ''Failed to fetch'')] (step Edit loaded))
       = [CallList, CallUpdate ''1'' draft]
   \<and> status (run [Save draft 5 200, SaveFailed (Error ''Failed to fetch'')] (step Edit loaded))
       = Success
   \<and> mode (run [Save draft 5 200, SaveFailed (Error ''Failed to fetch'')] (step Edit loaded))
       = Editing
   \<and> alerts (run [Save draft 5 200, SaveFailed (Error ''Failed to fetch'')] (step Edit loaded))
       = [''Error saving note: Failed to fetch'']"
  by (simp add: loaded_eq run_defs)

text \<open>
  Claim C4, as amended. In mode \<open>Editing\<close> with an active note \<open>a\<close>,
  \<^verbatim>\<open>handleSave\<close> replaces, in the collection, the notes with the id of \<open>a\<close> by \<open>a\<close>
  with the payload's fields and the clock reading merged in (the ids of the collection
  stay as they are, in their order), calls \<^verbatim>\<open>updateNote\<close> and stays in mode
  \<open>Editing\<close>. When \<^verbatim>\<open>updateNote\<close> has returned, it calls \<^verbatim>\<open>refresh()\<close> (status
  loading, a call of \<^verbatim>\<open>listNotes\<close>), and when that has ended, whether \<^verbatim>\<open>listNotes\<close>
  failed or not, it sets the mode to \<open>Viewing\<close> and \<open>saving\<close> to false. When
  \<^verbatim>\<open>updateNote\<close> has thrown, it shows ``Error saving note: ...'' and nothing else: no
  call is made, and status, mode and notes are as they were. For an active note whose id
  is not the empty string, the same is said of whole runs: update, refresh, then mode
  \<open>Viewing\<close> if a note is left; or update, failure, and the mode still \<open>Editing\<close>.
\<close>

theorem update_handler:
  assumes "mode s = Editing" and "activeNote s = Some a"
  shows "notes (handleSave_begin p tick now s) =
           map (\<lambda>n. if note_id n = note_id a then merged a p now else n) (notes s)
       \<and> merged a p now \<in> set (notes (handleSave_begin p tick now s))
       \<and> map note_id (notes (handleSave_begin p tick now s)) = map note_id (notes s)
       \<and> calls (handleSave_begin p tick now s) = calls s @ [CallUpdate (note_id a) p]
       \<and> mode (handleSave_begin p tick now s) = Editing
       \<and> calls (handleSave_updated s2) = calls s2 @ [CallList]
       \<and> status (handleSave_updated s2) = Loading
       \<and> mode (handleSave_refreshed r s3) = Viewing
       \<and> saving (handleSave_refreshed r s3) = False
       \<and> calls (handleSave_failed e s2) = calls s2
       \<and> status (handleSave_failed e s2) = status s2
       \<and> mode (handleSave_failed e s2) = mode s2
       \<and> notes (handleSave_failed e s2) = notes s2
       \<and> alerts (handleSave_failed e s2) = alerts s2 @ [''Error saving note: '' @ shown e]
       \<and> (note_id a \<noteq> [] \<longrightarrow>
            step (Save p tick now) s = handleSave_begin p tick now s
          \<and> status (run [Save p tick now, Updated, Refreshed r] s)
              = (case r of Inl e \<Rightarrow> Failed | Inr d \<Rightarrow> Success)
          \<and> calls (run [Save p tick now, Updated, Refreshed r] s)
              = calls s @ [CallUpdate (note_id a) p, CallList]
          \<and> (notes (run [Save p tick now, Updated, Refreshed r] s) \<noteq> [] \<longrightarrow>
               mode (run [Save p tick now, Updated, Refreshed r] s) = Viewing)
          \<and> calls (run [Save p tick now, SaveFailed e] s) = calls s @ [CallUpdate (note_id a) p]
          \<and> status (run [Save p tick now, SaveFailed e] s) = status s
          \<and> mode (run [Save p tick now, SaveFailed e] s) = Editing)"
proof -
  let ?s1 = "handleSave_begin p tick now s"
  note b = update_begin [OF assms]
  from activeNote_id [OF assms(2)] have a: "activeId s = Some (note_id a)" "a \<in> set (notes s)"
    by simp_all
  have mem: "merged a p now \<in> set (notes ?s1)"
    using a(2) by (auto simp: b image_iff)
  have ne: "notes ?s1 \<noteq> []"
    using a(2) by (auto simp: b)
  have runs: "note_id a \<noteq> [] \<longrightarrow>
            step (Save p tick now) s = ?s1
          \<and> status (run [Save p tick now, Updated, Refreshed r] s)
              = (case r of Inl e \<Rightarrow> Failed | Inr d \<Rightarrow> Success)
          \<and> calls (run [Save p tick now, Updated, Refreshed r] s)
              = calls s @ [CallUpdate (note_id a) p, CallList]
          \<and> (notes (run [Save p tick now, Updated, Refreshed r] s) \<noteq> [] \<longrightarrow>
               mode (run [Save p tick now, Updated, Refreshed r] s) = Viewing)
          \<and> calls (run [Save p tick now, SaveFailed e] s) = calls s @ [CallUpdate (note_id a) p]
          \<and> status (run [Save p tick now, SaveFailed e] s) = status s
          \<and> mode (run [Save p tick now, SaveFailed e] s) = Editing"
  proof
    assume id: "note_id a \<noteq> []"
    have st1: "step (Save p tick now) s = ?s1"
      using assms ne a(1) id
      by (simp add: step_def Let_def selection_effect_def falsy_def b [of p tick now])
    have st2: "step Updated ?s1 = handleSave_updated ?s1"
      by (simp add: step_def Let_def handleSave_updated_def refresh_begin_def)
    have r3: "run [Save p tick now, Updated, Refreshed r] s =
        step (Refreshed r) (handleSave_updated ?s1)"
      by (simp add: st1 st2)
    have sf: "step (SaveFailed e) ?s1 = handleSave_failed e ?s1"
      by (simp add: step_def Let_def handleSave_failed_def)
    have rf: "run [Save p tick now, SaveFailed e] s = handleSave_failed e ?s1"
      by (simp add: st1 sf)
    have ok: "status (run [Save p tick now, Updated, Refreshed r] s)
          = (case r of Inl e \<Rightarrow> Failed | Inr d \<Rightarrow> Success)"
        "calls (run [Save p tick now, Updated, Refreshed r] s)
          = calls s @ [CallUpdate (note_id a) p, CallList]"
        "notes (run [Save p tick now, Updated, Refreshed r] s) \<noteq> [] \<longrightarrow>
          mode (run [Save p tick now, Updated, Refreshed r] s) = Viewing"
      unfolding r3
      by (auto simp: step_def Let_def selection_effect_def handleSave_refreshed_def
          handleSave_updated_def refresh_begin_def refresh_end_def b split: sum.splits)
    have failed: "calls (run [Save p tick now, SaveFailed e] s) = calls s @ [CallUpdate (note_id a) p]"
        "status (run [Save p tick now, SaveFailed e] s) = status s"
        "mode (run [Save p tick now, SaveFailed e] s) = Editing"
      unfolding rf using assms(1) by (simp_all add: handleSave_failed_def b)
    from st1 ok failed show "step (Save p tick now) s = ?s1
          \<and> status (run [Save p tick now, Updated, Refreshed r] s)
              = (case r of Inl e \<Rightarrow> Failed | Inr d \<Rightarrow> Success)
          \<and> calls (run [Save p tick now, Updated, Refreshed r] s)
              = calls s @ [CallUpdate (note_id a) p, CallList]
          \<and> (notes (run [Save p tick now, Updated, Refreshed r] s) \<noteq> [] \<longrightarrow>
               mode (run [Save p tick now, Updated, Refreshed r] s) = Viewing)
          \<and> calls (run [Save p tick now, SaveFailed e] s) = calls s @ [CallUpdate (note_id a) p]
          \<and> status (run [Save p tick now, SaveFailed e] s) = status s
          \<and> mode (run [Save p tick now, SaveFailed e] s) = Editing"
      by blast
  qed
  have parts: "calls (handleSave_updated s2) = calls s2 @ [CallList]"
      "status (handleSave_updated s2) = Loading"
      "mode (handleSave_refreshed r s3) = Viewing"
      "saving (handleSave_refreshed r s3) = False"
      "calls (handleSave_failed e s2) = calls s2"
      "status (handleSave_failed e s2) = status s2"
      "mode (handleSave_failed e s2) = mode s2"
      "notes (handleSave_failed e s2) = notes s2"
      "alerts (handleSave_failed e s2) = alerts s2 @ [''Error saving note: '' @ shown e]"
    by (simp_all add: handleSave_updated_def refresh_begin_def handleSave_refreshed_def
        handleSave_failed_def)
  have first: "notes ?s1 = map (\<lambda>n. if note_id n = note_id a then merged a p now else n) (notes s)"
      "map note_id (notes ?s1) = map note_id (notes s)"
      "calls ?s1 = calls s @ [CallUpdate (note_id a) p]"
      "mode ?s1 = Editing"
    using assms(1) by (simp_all add: b merged_id)
  from first mem parts runs show ?thesis
    by blast
qed

theorem update_handler_witness:
  "mode (step Edit loaded) = Editing \<and> activeNote (step Edit loaded) = Some seed
   \<and> run [Save draft 5 200, Updated, Refreshed (Inr (Some [seed\<lparr>title := ''T1'', content := [], updatedAt := 202\<rparr>]))]
        (step Edit loaded) =
       \<lparr>notes = [seed\<lparr>title := ''T1'', content := [], updatedAt := 202\<rparr>], status = Success,
        error = [], activeId = Some ''1'', mode = Viewing, saving = False, alerts = [],
        calls = [CallList, CallUpdate ''1'' draft, CallList]\<rparr>"
  using update_handler [of "step Edit loaded" seed draft 5 200 initial
      "Inr (Some [seed\<lparr>title := ''T1'', content := [], updatedAt := 202\<rparr>])" initial "Error []"]
  by (simp add: loaded_eq run_defs)

subsection \<open>The state between two steps\<close>

text \<open>A handler changes the collection only by a call of \<^verbatim>\<open>setNotes\<close>.\<close>

lemma handler_notes_changed: "notes (handler e s) \<noteq> notes s \<Longrightarrow> sets_notes e s"
  by (cases e)
    (auto simp: handler_defs Let_def split: sum.splits option.splits if_splits)

lemma selection_effect_coherent:
  "mode s \<noteq> Creating \<or> notes s = [] \<or> falsy (activeId s) \<Longrightarrow> coherent (selection_effect s)"
  by (auto simp: coherent_def selection_effect_def falsy_def split: option.splits)

lemma initial_coherent: "coherent initial"
  by (simp add: coherent_def initial_def)

text \<open>
  Every step, whatever the event and the data it carries, keeps the state coherent:
  after a step that ran the effect the effect has made it so, and after any other step
  neither the collection nor the active id has changed.
\<close>

lemma step_coherent:
  assumes "coherent s"
  shows "coherent (step e s)"
proof (cases "sets_notes e s \<or> activeId (handler e s) \<noteq> activeId s")
  case False
  then have same: "notes (handler e s) = notes s" "activeId (handler e s) = activeId s"
      "step e s = handler e s"
    using handler_notes_changed [of e s] by (auto simp: step_def)
  have "mode (handler e s) = Creating \<longrightarrow> notes s = []"
    using assms False
    by (cases e)
      (auto simp: coherent_def handler_defs Let_def split: sum.splits option.splits if_splits)
  with assms same show ?thesis
    by (simp add: coherent_def)
next
  case True
  then have st: "step e s = selection_effect (handler e s)"
    by (simp add: step_def)
  have "mode (handler e s) \<noteq> Creating \<or> notes (handler e s) = [] \<or> falsy (activeId (handler e s))"
    using assms
    by (cases e)
      (auto simp: coherent_def falsy_def handler_defs Let_def
        split: sum.splits option.splits if_splits)
  then show ?thesis
    unfolding st by (rule selection_effect_coherent)
qed

lemma run_coherent: "coherent s \<Longrightarrow> coherent (run es s)"
  by (induction es arbitrary: s) (simp_all add: step_coherent)


text \<open>
  With a non-empty collection and a note active, the create button does not leave the
  component in mode \<open>Creating\<close>: the handler clears the active id, so the effect runs and
  selects the first note.
\<close>

lemma create_button_with_notes:
  assumes "notes s \<noteq> []" and "\<not> falsy (activeId s)"
  shows "step Create s = s\<lparr>mode := Viewing, activeId := Some (note_id (hd (notes s)))\<rparr>"
  using assms
  by (cases "activeId s") (simp_all add: step_def onCreate_def selection_effect_def falsy_def)

subsection \<open>C5: the reactive rule\<close>

text \<open>
  The claim lets the rule hold after every step. The effect runs only after a render in
  which \<open>notes\<close> or \<open>activeId\<close> changed: pressing the create button on the empty
  collection changes neither, and the step ends with an empty collection in mode
  \<open>Creating\<close>, not \<open>Empty\<close> (the first note could not be written otherwise). The
  claim also describes a create in flight as mode \<open>Creating\<close> with no active id. After
  the save of the first note, with \<^verbatim>\<open>createNote\<close> called and not yet answered, the
  optimistic note is in the collection, the mode is \<open>Viewing\<close> and the temporary id is
  active: the create handler has set both.
\<close>

theorem reactive_rule_counterexample:
  "notes (step Create initial) = [] \<and> mode (step Create initial) = Creating
   \<and> mode (step Create initial) \<noteq> Empty
   \<and> notes (run [Create, Save draft 5 200] initial) =
        [\<lparr>note_id = ''temp_5'', title = ''T1'', content = [], updatedAt = 200\<rparr>]
   \<and> calls (run [Create, Save draft 5 200] initial) = [CallCreate draft]
   \<and> mode (run [Create, Save draft 5 200] initial) = Viewing
   \<and> mode (run [Create, Save draft 5 200] initial) \<noteq> Creating
   \<and> activeId (run [Create, Save draft 5 200] initial) = Some ''temp_5''"
  by (simp add: run_defs)

text \<open>
  Claim C5, as amended. Whenever a step changes the notes collection: if the collection
  is then non-empty and no note is active, the first note of the collection becomes
  active and the mode becomes \<open>Viewing\<close>; if it is then empty, the active id is cleared
  and the mode becomes \<open>Empty\<close>; if it is non-empty and a note is active, the rule
  changes nothing. The same holds whenever a listing is stored, also one equal to the
  collection held. Pressing the create button while the collection is empty and no note is active
  leaves the mode \<open>Creating\<close>. While a create is in flight, as the create handler leaves
  it (the optimistic note first in the collection, its temporary id active, mode
  \<open>Viewing\<close>), the rule does not override it: it changes nothing after the optimistic
  insert, and nothing after the returned note has replaced the optimistic one.
\<close>

theorem reactive_rule:
  "(notes (step e s) \<noteq> notes s \<longrightarrow>
      (notes (step e s) \<noteq> [] \<and> falsy (activeId (handler e s)) \<longrightarrow>
         activeId (step e s) = Some (note_id (hd (notes (step e s))))
       \<and> mode (step e s) = Viewing)
    \<and> (notes (step e s) = [] \<longrightarrow> activeId (step e s) = None \<and> mode (step e s) = Empty)
    \<and> (notes (step e s) \<noteq> [] \<and> \<not> falsy (activeId (handler e s)) \<longrightarrow>
         step e s = handler e s))
   \<and> notes (step (Listed (Inr (Some listed))) s) = listed
   \<and> (listed \<noteq> [] \<and> falsy (activeId s) \<longrightarrow>
         activeId (step (Listed (Inr (Some listed))) s) = Some (note_id (hd listed))
       \<and> mode (step (Listed (Inr (Some listed))) s) = Viewing)
   \<and> (listed = [] \<longrightarrow>
         activeId (step (Listed (Inr (Some listed))) s) = None
       \<and> mode (step (Listed (Inr (Some listed))) s) = Empty)
   \<and> (notes s = [] \<and> activeId s = None \<longrightarrow> step Create s = s\<lparr>mode := Creating\<rparr>)
   \<and> (mode s = Creating \<longrightarrow>
         step (Save p tick now) s = handleSave_begin p tick now s
       \<and> hd (notes (step (Save p tick now) s)) =
           \<lparr>note_id = temp_id tick, title = or_else (ptitle p) ''Untitled'',
            content = or_else (pcontent p) [], updatedAt = now\<rparr>
       \<and> activeId (step (Save p tick now) s) = Some (temp_id tick)
       \<and> mode (step (Save p tick now) s) = Viewing
       \<and> selection_effect (step (Save p tick now) s) = step (Save p tick now) s
       \<and> step (Created (temp_id tick) created) (step (Save p tick now) s) =
           handleSave_created (temp_id tick) created (step (Save p tick now) s))"
proof -
  have changed: "notes (step e s) \<noteq> notes s \<longrightarrow>
      (notes (step e s) \<noteq> [] \<and> falsy (activeId (handler e s)) \<longrightarrow>
         activeId (step e s) = Some (note_id (hd (notes (step e s))))
       \<and> mode (step e s) = Viewing)
    \<and> (notes (step e s) = [] \<longrightarrow> activeId (step e s) = None \<and> mode (step e s) = Empty)
    \<and> (notes (step e s) \<noteq> [] \<and> \<not> falsy (activeId (handler e s)) \<longrightarrow>
         step e s = handler e s)"
  proof
    assume "notes (step e s) \<noteq> notes s"
    then have "sets_notes e s"
      using handler_notes_changed [of e s] by (simp add: step_notes)
    then have st: "step e s = selection_effect (handler e s)"
      by (simp add: step_def)
    show "(notes (step e s) \<noteq> [] \<and> falsy (activeId (handler e s)) \<longrightarrow>
         activeId (step e s) = Some (note_id (hd (notes (step e s))))
       \<and> mode (step e s) = Viewing)
    \<and> (notes (step e s) = [] \<longrightarrow> activeId (step e s) = None \<and> mode (step e s) = Empty)
    \<and> (notes (step e s) \<noteq> [] \<and> \<not> falsy (activeId (handler e s)) \<longrightarrow>
         step e s = handler e s)"
      unfolding st by (simp add: selection_effect_def)
  qed
  have listing: "notes (step (Listed (Inr (Some listed))) s) = listed"
      "listed \<noteq> [] \<and> falsy (activeId s) \<longrightarrow>
         activeId (step (Listed (Inr (Some listed))) s) = Some (note_id (hd listed))
       \<and> mode (step (Listed (Inr (Some listed))) s) = Viewing"
      "listed = [] \<longrightarrow>
         activeId (step (Listed (Inr (Some listed))) s) = None
       \<and> mode (step (Listed (Inr (Some listed))) s) = Empty"
    by (simp_all add: step_def Let_def refresh_end_def selection_effect_def)
  have button: "notes s = [] \<and> activeId s = None \<longrightarrow> step Create s = s\<lparr>mode := Creating\<rparr>"
    by (simp add: step_def onCreate_def)
  have inflight: "mode s = Creating \<longrightarrow>
         step (Save p tick now) s = handleSave_begin p tick now s
       \<and> hd (notes (step (Save p tick now) s)) =
           \<lparr>note_id = temp_id tick, title = or_else (ptitle p) ''Untitled'',
            content = or_else (pcontent p) [], updatedAt = now\<rparr>
       \<and> activeId (step (Save p tick now) s) = Some (temp_id tick)
       \<and> mode (step (Save p tick now) s) = Viewing
       \<and> selection_effect (step (Save p tick now) s) = step (Save p tick now) s
       \<and> step (Created (temp_id tick) created) (step (Save p tick now) s) =
           handleSave_created (temp_id tick) created (step (Save p tick now) s)"
  proof
    assume c: "mode s = Creating"
    show "step (Save p tick now) s = handleSave_begin p tick now s
       \<and> hd (notes (step (Save p tick now) s)) =
           \<lparr>note_id = temp_id tick, title = or_else (ptitle p) ''Untitled'',
            content = or_else (pcontent p) [], updatedAt = now\<rparr>
       \<and> activeId (step (Save p tick now) s) = Some (temp_id tick)
       \<and> mode (step (Save p tick now) s) = Viewing
       \<and> selection_effect (step (Save p tick now) s) = step (Save p tick now) s
       \<and> step (Created (temp_id tick) created) (step (Save p tick now) s) =
           handleSave_created (temp_id tick) created (step (Save p tick now) s)"
      unfolding create_begin_step [OF c] created_step
      by (simp add: create_begin [OF c] selection_effect_def falsy_def temp_id_nonempty)
  qed
  from changed listing button inflight show ?thesis
    by blast
qed

theorem reactive_rule_witness:
  "notes (step (Listed (Inr (Some [seed]))) (step Mounted initial)) \<noteq> notes (step Mounted initial)
   \<and> falsy (activeId (handler (Listed (Inr (Some [seed]))) (step Mounted initial)))
   \<and> activeId (step (Listed (Inr (Some [seed]))) (step Mounted initial)) = Some ''1''
   \<and> mode (step (Listed (Inr (Some [seed]))) (step Mounted initial)) = Viewing
   \<and> notes initial = [] \<and> activeId initial = None
   \<and> mode (step Create initial) = Creating
   \<and> step (Save draft 5 200) (step Create initial) =
        handleSave_begin draft 5 200 (step Create initial)
   \<and> mode (step (Listed (Inr (Some []))) loaded) = Empty"
  using reactive_rule [of "Listed (Inr (Some [seed]))" "step Mounted initial" "[seed]" draft 5 200 server_note]
    reactive_rule [of Create initial "[]" draft 5 200 server_note]
    reactive_rule [of Create "step Create initial" "[]" draft 5 200 server_note]
    reactive_rule [of "Listed (Inr (Some []))" loaded "[]" draft 5 200 server_note]
  by (simp add: run_defs)

subsection \<open>C1: the ids of the collection\<close>

lemma distinct_ids_filter:
  "distinct (map note_id xs) \<Longrightarrow> distinct (map note_id (filter P xs))"
  by (simp add: distinct_map_filter)

lemma handler_distinct:
  assumes "distinct (map note_id (notes s))" and "admissible s e"
  shows "distinct (map note_id (notes (handler e s)))"
proof (cases e)
  case Mounted
  with assms show ?thesis by (simp add: refresh_begin_def)
next
  case (Listed r)
  with assms show ?thesis
    by (auto simp: refresh_end_def duplicate_free_def split: sum.splits option.splits)
next
  case (Select i)
  with assms show ?thesis by (simp add: onSelect_def)
next
  case Create
  with assms show ?thesis by (simp add: onCreate_def)
next
  case Edit
  with assms show ?thesis by (simp add: startEdit_def)
next
  case Cancel
  with assms show ?thesis by (simp add: cancelEdit_def)
next
  case (Save p tick now)
  with assms show ?thesis
    by (auto simp: handleSave_begin_def Let_def map_merged_ids simp del: map_map
        split: option.splits)
next
  case (Created tempId created)
  with assms show ?thesis
    by (simp add: handleSave_created_def distinct_ids_filter)
next
  case Updated
  with assms show ?thesis by (simp add: handleSave_updated_def refresh_begin_def)
next
  case (Refreshed r)
  with assms show ?thesis
    by (auto simp: handleSave_refreshed_def refresh_end_def duplicate_free_def
        split: sum.splits option.splits)
next
  case (SaveFailed err)
  with assms show ?thesis by (simp add: handleSave_failed_def)
next
  case (Delete confirmed)
  with assms show ?thesis
    by (auto simp: handleDelete_begin_def distinct_ids_filter split: option.splits)
next
  case (Deleted idToDelete snapshot)
  with assms show ?thesis
    by (auto simp: handleDelete_deleted_def split: option.splits)
next
  case (DeleteFailed err)
  with assms show ?thesis by (simp add: handleDelete_failed_def refresh_begin_def)
qed

lemma run_distinct:
  "distinct (map note_id (notes s)) \<Longrightarrow> admissible_run s es
   \<Longrightarrow> distinct (map note_id (notes (run es s)))"
proof (induction es arbitrary: s)
  case Nil
  then show ?case by simp
next
  case (Cons e es)
  from Cons.prems have "distinct (map note_id (notes (step e s)))"
    by (simp add: step_notes handler_distinct)
  with Cons.prems Cons.IH [of "step e s"] show ?case by simp
qed

text \<open>
  Within one invocation the ids from outside are harmless: a create starts on the empty
  collection, so the note it returns replaces the only note there is.
\<close>

lemma invocation_admissible:
  assumes "coherent s" and "duplicate_free (list_answer ans)"
  shows "admissible_run s (invocation a ans s)"
proof (cases a)
  case (DoSave p tick now)
  show ?thesis
  proof (cases "mode s = Creating")
    case True
    with assms(1) have empty: "notes s = []"
      by (simp add: coherent_def)
    have "notes (step (Save p tick now) s) =
        [\<lparr>note_id = temp_id tick, title = or_else (ptitle p) ''Untitled'',
          content = or_else (pcontent p) [], updatedAt = now\<rparr>]"
      by (simp add: create_begin_step [OF True] create_begin [OF True] empty)
    with True empty DoSave show ?thesis
      by (simp add: invocation_def split: sum.splits)
  next
    case False
    with assms(2) DoSave show ?thesis
      by (simp add: invocation_def split: sum.splits)
  qed
next
  case (DoDelete confirmed)
  with assms(2) show ?thesis
    by (simp add: invocation_def split: sum.splits option.splits)
qed (use assms(2) in \<open>simp_all add: invocation_def\<close>)

lemma session_distinct:
  assumes "\<forall>x\<in>set todo. duplicate_free (list_answer (snd x))"
    and "coherent s" and "distinct (map note_id (notes s))"
  shows "distinct (map note_id (notes (session todo s)))"
  using assms
proof (induction todo arbitrary: s)
  case Nil
  then show ?case by simp
next
  case (Cons x todo)
  obtain a ans where x: "x = (a, ans)" by (cases x)
  let ?s = "run (invocation a ans s) s"
  from Cons.prems x have "admissible_run s (invocation a ans s)"
    by (simp add: invocation_admissible)
  with Cons.prems(3) have d: "distinct (map note_id (notes ?s))"
    by (rule run_distinct)
  have c: "coherent ?s"
    using Cons.prems(2) by (rule run_coherent)
  from Cons.IH [OF _ c d] Cons.prems(1) show ?case
    by (simp add: x)
qed

text \<open>
  The claim holds for every sequence of steps. The handlers never compare ids, so it
  fails when invocations overlap and when a listing holds an id twice. Two runs end with
  the note the server created twice in the collection. In the first the listing of the
  mount effect, taken by the server after the create, arrives while the create is in
  flight. In the second the user deletes the optimistic note while the create is in
  flight, the delete fails, and the listing of its \<^verbatim>\<open>refresh()\<close> arrives before the
  answer to the create. In a third run the first listing holds the seeded note twice.
\<close>

theorem duplicate_ids_counterexample:
  "distinct (map note_id (notes initial))
   \<and> notes (run [Mounted, Create, Save draft 5 200, Listed (Inr (Some [server_note])),
                  Created (temp_id 5) server_note] initial) = [server_note, server_note]
   \<and> \<not> distinct (map note_id (notes (run [Mounted, Create, Save draft 5 200,
                  Listed (Inr (Some [server_note])), Created (temp_id 5) server_note] initial)))
   \<and> notes (run [Mounted, Listed (Inr (Some [])), Create, Save draft 5 200, Delete True,
                  DeleteFailed (Error ''Not Found''), Listed (Inr (Some [server_note])),
                  Created (temp_id 5) server_note] initial) = [server_note, server_note]
   \<and> notes (run [Mounted, Listed (Inr (Some [seed, seed]))] initial) = [seed, seed]
   \<and> \<not> distinct (map note_id (notes (run [Mounted, Listed (Inr (Some [seed, seed]))] initial)))"
  by (simp add: run_defs)

text \<open>
  Claim C1, as amended. From the initial state, after every sequence of handler
  invocations (the mount, select, create, edit, cancel, save, delete) each of which has
  ended before the next starts, and in which every listing returned is duplicate-free,
  no two notes of the collection have the same id. Nothing is assumed of the temporary
  ids (any clock readings), of the notes that create calls return, or of the calls that
  fail. When a create call has returned, the collection is the returned note followed
  by the notes whose id is not the temporary one; after the delete handler has run on an
  active note, the collection is the old one without the notes of its id.
\<close>

theorem unique_ids_preserved:
  assumes "\<forall>x\<in>set todo. duplicate_free (list_answer (snd x))"
  shows "distinct (map note_id (notes (session todo initial)))
       \<and> notes (step (Created tempId created) s2) =
           created # filter (\<lambda>n. note_id n \<noteq> tempId) (notes s2)
       \<and> (activeNote s2 = Some a \<longrightarrow>
            notes (step (Delete True) s2) = filter (\<lambda>n. note_id n \<noteq> note_id a) (notes s2)
          \<and> note_id a \<notin> note_id ` set (notes (step (Delete True) s2)))"
proof -
  have "distinct (map note_id (notes (session todo initial)))"
    using assms initial_coherent by (rule session_distinct) (simp add: initial_def)
  then show ?thesis
    by (auto simp: step_notes handleSave_created_def handleDelete_begin_def)
qed


theorem unique_ids_preserved_witness:
  "duplicate_free (list_answer replies)
   \<and> session [(DoMount, replies), (DoEdit, replies), (DoSave draft 5 200, replies),
        (DoDelete True, replies), (DoCreate, replies), (DoSave draft 6 300, replies)] initial =
       \<lparr>notes = [server_note], status = Success, error = [], activeId = Some ''7'', mode = Viewing,
        saving = False, alerts = [],
        calls = [CallList, CallUpdate ''1'' draft, CallList, CallDelete ''1'', CallCreate draft]\<rparr>"
  using unique_ids_preserved [of "[(DoMount, replies), (DoEdit, replies), (DoSave draft 5 200, replies),
        (DoDelete True, replies), (DoCreate, replies), (DoSave draft 6 300, replies)]"
        "temp_id 6" server_note initial seed]
  by (simp add: run_defs invocation_def replies_def duplicate_free_def)

end
